theory Spec2Isabelle
  imports Complex_Main "HOL-Library.Word" "HOL-Library.Multiset"
begin

unbundle bit_operations_syntax

section \<open>Data model\<close>

type_synonym bytes = "8 word list"
type_synonym uint256 = "256 word"

text \<open>
  Modelled from the spec: \<open>wallet::UtxoEntry\<close> is declared in
  \<open>xbridgewalletconnector.h\<close>, which is not among the sources. Section 3 of the
  specification gives its fields (txid, vout, address, amount in floating-point coin
  units, signature, rawAddress) and says that equality uses (txid, vout) only. The
  type \<open>'d\<close> stands for \<open>double\<close>: nothing is assumed of it but that its
  values are linearly ordered where they are compared.
\<close>

record 'd UtxoEntry =
  txId :: string
  vout :: "32 word"
  amount :: 'd
  address :: string
  rawAddress :: bytes
  signature :: bytes

type_synonym utxo_key = "string \<times> 32 word"

definition utxo_key :: "'d UtxoEntry \<Rightarrow> utxo_key" where
  "utxo_key u = (txId u, vout u)"

text \<open>
  A \<open>std::set<wallet::UtxoEntry>\<close> holds at most one entry per (txid, vout); it is a
  finite map from that key to the entry stored under it. \<open>insert\<close> keeps the entry
  already stored under an equal key, \<open>erase\<close> removes by key, \<open>count\<close> looks the
  key up.
\<close>

type_synonym 'd utxo_set = "utxo_key \<rightharpoonup> 'd UtxoEntry"

definition set_count :: "'d utxo_set \<Rightarrow> 'd UtxoEntry \<Rightarrow> bool" where
  "set_count st u = (st (utxo_key u) \<noteq> None)"

definition set_insert :: "'d utxo_set \<Rightarrow> 'd UtxoEntry \<Rightarrow> 'd utxo_set" where
  "set_insert st u = (if set_count st u then st else st(utxo_key u \<mapsto> u))"

definition set_erase :: "'d utxo_set \<Rightarrow> 'd UtxoEntry \<Rightarrow> 'd utxo_set" where
  "set_erase st u = st(utxo_key u := None)"

fun set_insert_range :: "'d utxo_set \<Rightarrow> 'd UtxoEntry list \<Rightarrow> 'd utxo_set" where
  "set_insert_range st [] = st"
| "set_insert_range st (u # us) = set_insert_range (set_insert st u) us"

section \<open>UTXO lock manager\<close>

type_synonym 'd utxos_dict = "string \<rightharpoonup> 'd utxo_set"

text \<open>The loop of \<open>App::lockCoins\<close> that looks for an entry that is already locked.\<close>

fun any_locked :: "'d utxo_set \<Rightarrow> 'd UtxoEntry list \<Rightarrow> bool" where
  "any_locked st [] = False"
| "any_locked st (u # us) = (if set_count st u then True else any_locked st us)"

text \<open>\<open>App::lockCoins\<close>: the returned flag and the new \<open>m_utxosDict\<close>.\<close>

definition lockCoins :: "string \<Rightarrow> 'd UtxoEntry list \<Rightarrow> 'd utxos_dict \<Rightarrow> bool \<times> 'd utxos_dict" where
  "lockCoins token utxos dict =
     (case dict token of
        None \<Rightarrow> (True, dict(token \<mapsto> set_insert_range Map.empty utxos))
      | Some st \<Rightarrow>
          if any_locked st utxos then (False, dict)
          else (True, dict(token \<mapsto> set_insert_range st utxos)))"

text \<open>The loop of \<open>App::unlockCoins\<close>.\<close>

fun erase_all :: "'d utxo_set \<Rightarrow> 'd UtxoEntry list \<Rightarrow> 'd utxo_set" where
  "erase_all st [] = st"
| "erase_all st (u # us) = erase_all (if set_count st u then set_erase st u else st) us"

definition unlockCoins :: "string \<Rightarrow> 'd UtxoEntry list \<Rightarrow> 'd utxos_dict \<Rightarrow> 'd utxos_dict" where
  "unlockCoins token utxos dict =
     (case dict token of
        None \<Rightarrow> dict
      | Some st \<Rightarrow> dict(token \<mapsto> erase_all st utxos))"

text \<open>The entries locked for a currency, as a set of keys (empty for an unknown currency).\<close>

definition locked_keys :: "'d utxos_dict \<Rightarrow> string \<Rightarrow> utxo_key set" where
  "locked_keys dict token = (case dict token of None \<Rightarrow> {} | Some st \<Rightarrow> dom st)"

section \<open>Orders and the order store\<close>

text \<open>
  Modelled from the spec: \<open>enum State\<close> of \<open>TransactionDescr\<close> is declared in
  \<open>xbridgetransactiondescr.h\<close>, which is not among the sources. Section 4.6 of the
  specification lists the states of an order; they carry the prefix \<open>tr\<close> of the
  sources here. The numeric order of the enumerators is not given there: a function
  that compares states takes their rank as an argument.
\<close>

datatype State =
    trNew | trPending | trAccepting | trHold | trInitializedWait | trInitialized
  | trCreatedWait | trCreated | trSignedWait | trSigned | trCommittedWait | trCommitted
  | trFinished | trCancelled | trRolledBack | trOffline | trExpired | trInvalid
  | trDroppedByUser

text \<open>
  Modelled from the spec: \<open>TransactionDescr\<close> (the order descriptor of section 3) is
  declared in \<open>xbridgetransactiondescr.h\<close>, which is not among the sources. The
  fields are those that the functions below read or write. Times (\<open>ptime\<close>) are
  microseconds since the epoch, a public key (\<open>CPubKey\<close>) is its byte string.
\<close>

record 'd TransactionDescr =
  tx_id :: uint256
  state :: State
  created :: int
  txtime :: int
  fromCurrency :: string
  toCurrency :: string
  fromAmount :: "64 word"
  toAmount :: "64 word"
  fromAddr :: string
  tx_from :: bytes
  toAddr :: string
  tx_to :: bytes
  role :: char
  hubAddress :: bytes
  sPubKey :: bytes
  mPubKey :: bytes
  mPrivKey :: bytes
  usedCoins :: "'d UtxoEntry list"
  feeUtxos :: "'d utxo_set"
  rawFeeTx :: string
  excludedNodes :: "bytes set"

text \<open>
  The members of \<open>App\<close> and \<open>App::Impl\<close> that the functions below use. A map holds
  the descriptor itself where the source holds a shared pointer to it: a write through
  the pointer is a write to the entry of the map.
\<close>

record 'd app_state =
  m_transactions :: "uint256 \<rightharpoonup> 'd TransactionDescr"
  m_historicTransactions :: "uint256 \<rightharpoonup> 'd TransactionDescr"
  m_utxosDict :: "'d utxos_dict"
  m_feeUtxos :: "'d utxo_set"
  m_pendingPackets :: "uint256 \<rightharpoonup> bytes"

definition init_state :: "'d app_state" where
  "init_state = \<lparr>m_transactions = Map.empty, m_historicTransactions = Map.empty,
     m_utxosDict = Map.empty, m_feeUtxos = Map.empty, m_pendingPackets = Map.empty\<rparr>"







text \<open>
  The last step of \<open>App::sendXBridgeTransaction\<close>: the new order is stored in the live
  map under its id, without a look at the history.
\<close>

definition storeCreatedOrder :: "'d TransactionDescr \<Rightarrow> 'd app_state \<Rightarrow> 'd app_state" where
  "storeCreatedOrder ptr s = s\<lparr>m_transactions := (m_transactions s)(tx_id ptr \<mapsto> ptr)\<rparr>"

section \<open>Expiry sweep\<close>

text \<open>
  \<open>time_duration::total_seconds\<close> of a duration in microseconds: integer division
  that truncates towards zero.
\<close>

definition total_seconds :: "int \<Rightarrow> int" where
  "total_seconds d = (if d < 0 then - ((- d) div 1000000) else d div 1000000)"

text \<open>
  The body of the loop of \<open>App::Impl::checkAndEraseExpiredTransactions\<close> for one order
  whose lock was taken: the order after the step, and whether its id was put into
  \<open>forErase\<close>. The constants \<open>pendingTTL\<close>, \<open>TTL\<close> and \<open>deadlineTTL\<close> of
  \<open>xbridge::Transaction\<close> are declared in a header that is not among the sources;
  they are arguments.
\<close>

definition expiryStep ::
  "int \<Rightarrow> int \<Rightarrow> int \<Rightarrow> int \<Rightarrow> 'd TransactionDescr \<Rightarrow> 'd TransactionDescr \<times> bool" where
  "expiryStep pendingTTL TTL deadlineTTL currentTime tx =
     (let td = currentTime - txtime tx;
          tc = currentTime - created tx
      in if state tx = trNew \<and> total_seconds td > pendingTTL
           then (tx\<lparr>state := trOffline\<rparr>, False)
         else if state tx = trPending \<and> total_seconds td > pendingTTL
           then (tx\<lparr>state := trExpired\<rparr>, False)
         else if (state tx = trExpired \<or> state tx = trOffline) \<and> total_seconds td < pendingTTL
           then (tx\<lparr>state := trPending\<rparr>, False)
         else if (state tx = trExpired \<or> state tx = trOffline) \<and> total_seconds td > TTL
           then (tx, True)
         else if state tx = trPending \<and> total_seconds tc > deadlineTTL
           then (tx, True)
         else (tx, False))"

text \<open>
  \<open>App::Impl::checkAndEraseExpiredTransactions\<close> on the live map. \<open>txlock i\<close> tells
  whether \<open>TRY_LOCK\<close> gets the lock of order \<open>i\<close>; an order whose lock is held
  elsewhere is skipped. Each order is handled on its own, so the loop over the snapshot
  is written per id: the order keeps its place with the state the step gave it, or is
  gone when its id was collected in \<open>forErase\<close>. The sweep of the exchange's own
  table (\<open>Exchange::eraseExpiredTransactions\<close>) and the notification of the user
  interface are outside this state.
\<close>

definition checkAndEraseExpiredTransactions ::
  "int \<Rightarrow> int \<Rightarrow> int \<Rightarrow> (uint256 \<Rightarrow> bool) \<Rightarrow> int \<Rightarrow> 'd app_state \<Rightarrow> 'd app_state" where
  "checkAndEraseExpiredTransactions pendingTTL TTL deadlineTTL txlock currentTime s =
     s\<lparr>m_transactions :=
         (\<lambda>i. case m_transactions s i of
                 None \<Rightarrow> None
               | Some tx \<Rightarrow>
                   if \<not> txlock i then Some tx
                   else case expiryStep pendingTTL TTL deadlineTTL currentTime tx of
                          (tx', forErase) \<Rightarrow> if forErase then None else Some tx')\<rparr>"

section \<open>Reachable states of the order store\<close>



section \<open>Fixtures\<close>

text \<open>A wallet output and an order with fixed contents, for the worked examples.\<close>

definition utxo_fixture :: "string \<Rightarrow> 'd \<Rightarrow> 'd UtxoEntry" where
  "utxo_fixture t a =
     \<lparr>txId = t, vout = 0, amount = a, address = ''addr'', rawAddress = [], signature = []\<rparr>"

definition order_fixture :: "'d TransactionDescr" where
  "order_fixture =
     \<lparr>tx_id = 1, state = trNew, created = 0, txtime = 0, fromCurrency = ''BTC'',
      toCurrency = ''LTC'', fromAmount = 1000000, toAmount = 2000000, fromAddr = [],
      tx_from = [], toAddr = [], tx_to = [], role = CHR ''A'', hubAddress = [], sPubKey = [],
      mPubKey = [], mPrivKey = [], usedCoins = [], feeUtxos = Map.empty, rawFeeTx = [],
      excludedNodes = {}\<rparr>"




text \<open>The two ages that the expiry sweep compares with the time limits, in seconds.\<close>

definition txtime_age :: "int \<Rightarrow> 'd TransactionDescr \<Rightarrow> int" where
  "txtime_age currentTime tx = total_seconds (currentTime - txtime tx)"

definition creation_age :: "int \<Rightarrow> 'd TransactionDescr \<Rightarrow> int" where
  "creation_age currentTime tx = total_seconds (currentTime - created tx)"

text \<open>
  A pending order created at time 0 and last updated 99000 seconds later: at time
  100000 s it is 1000 s stale and older than a day.
\<close>

definition stale_pending_order :: "'d TransactionDescr" where
  "stale_pending_order = order_fixture\<lparr>state := trPending, created := 0, txtime := 99000000000\<rparr>"

section \<open>Service-node selection\<close>

text \<open>
  Modelled from the spec: the node registry (\<open>sn::ServiceNodeMgr\<close> and its
  \<open>sn::ServiceNode\<close> entries) is an external collaborator whose code is not among the
  sources. Section 4.9 of the specification names what an entry offers: whether the
  node is running, its protocol version, its public key and the list of services it
  advertises. The fields carry the names of the accessors that the sources call.
\<close>

record ServiceNode =
  getSnodePubKey :: bytes
  getXBridgeVersion :: "32 word"
  running :: bool
  serviceList :: "string list"

text \<open>
  What the sources ask of the registry: \<open>list()\<close>, \<open>getSn(key)\<close> (\<open>None\<close> for a
  null node), \<open>CPubKey::Decompress\<close> (the uncompressed key when it succeeds) and
  \<open>ServiceNode::hasService\<close>.
\<close>

record registry =
  snodes :: "ServiceNode list"
  getSn :: "bytes \<Rightarrow> ServiceNode option"
  Decompress :: "bytes \<Rightarrow> bytes option"
  hasService :: "ServiceNode \<Rightarrow> string \<Rightarrow> bool"

text \<open>
  The look-up \<open>pmn\<close> of \<open>findShuffledNodesWithService\<close>: by the key as it is, then by
  the uncompressed key.
\<close>

definition lookupSn :: "registry \<Rightarrow> bytes \<Rightarrow> ServiceNode option" where
  "lookupSn reg key =
     (case getSn reg key of
        Some pmn \<Rightarrow> Some pmn
      | None \<Rightarrow> (case Decompress reg key of
                   Some k \<Rightarrow> getSn reg k
                 | None \<Rightarrow> None))"

text \<open>
  The inner loop over \<open>requested_services\<close>, a \<open>std::set\<close> given as the list of its
  elements: it stops at the first service that the node does not advertise and appends
  the node's key when the counter, which starts at the number of requested services
  and is decremented once per service found, reaches 0. The counter is decremented at
  most as often as there are requested services, so it never wraps.
\<close>

fun services_loop :: "string list \<Rightarrow> bytes \<Rightarrow> nat \<Rightarrow> string list \<Rightarrow> bytes list \<Rightarrow> bytes list" where
  "services_loop wallet_services key searchCounter [] lst = lst"
| "services_loop wallet_services key searchCounter (serv # rest) lst =
     (if serv \<notin> set wallet_services then lst
      else if searchCounter - 1 = 0
        then services_loop wallet_services key (searchCounter - 1) rest (lst @ [key])
      else services_loop wallet_services key (searchCounter - 1) rest lst)"

text \<open>The outer loop over the entries of the registry.\<close>

fun nodes_loop ::
  "registry \<Rightarrow> string list \<Rightarrow> 32 word \<Rightarrow> bytes set \<Rightarrow> ServiceNode list \<Rightarrow> bytes list \<Rightarrow> bytes list" where
  "nodes_loop reg requested_services version notIn [] lst = lst"
| "nodes_loop reg requested_services version notIn (x # xs) lst =
     (if getXBridgeVersion x \<noteq> version \<or> getSnodePubKey x \<in> notIn \<or> \<not> running x
        then nodes_loop reg requested_services version notIn xs lst
      else if lookupSn reg (getSnodePubKey x) = None
        then nodes_loop reg requested_services version notIn xs lst
      else nodes_loop reg requested_services version notIn xs
             (services_loop (serviceList x) (getSnodePubKey x) (length requested_services)
                requested_services lst))"

text \<open>
  \<open>App::Impl::findShuffledNodesWithService\<close>. The engine \<open>rng\<close> is a static local of
  the function: it is seeded with 0 when the function first runs and keeps its state
  from one call to the next, so its state is an argument and a result. \<open>std::shuffle\<close>
  and the engine belong to the C++ library; \<open>shuffle\<close> stands for them.
\<close>

definition findShuffledNodesWithService ::
  "('g \<Rightarrow> bytes list \<Rightarrow> bytes list \<times> 'g) \<Rightarrow> registry \<Rightarrow> string list \<Rightarrow> 32 word \<Rightarrow> bytes set
     \<Rightarrow> 'g \<Rightarrow> bytes list \<times> 'g" where
  "findShuffledNodesWithService shuffle reg requested_services version notIn rng =
     shuffle rng (nodes_loop reg requested_services version notIn (snodes reg) [])"

text \<open>\<open>App::findNodeWithService\<close>; \<open>ver\<close> is the protocol version \<open>App::version()\<close>.\<close>

definition findNodeWithService ::
  "('g \<Rightarrow> bytes list \<Rightarrow> bytes list \<times> 'g) \<Rightarrow> registry \<Rightarrow> 32 word \<Rightarrow> string list \<Rightarrow> bytes set
     \<Rightarrow> 'g \<Rightarrow> bytes option \<times> 'g" where
  "findNodeWithService shuffle reg ver services notIn rng =
     (case findShuffledNodesWithService shuffle reg services ver notIn rng of
        ([], rng') \<Rightarrow> (None, rng')
      | (node # rest, rng') \<Rightarrow> (Some node, rng'))"

text \<open>\<open>App::Impl::hasNodeService\<close>.\<close>

definition hasNodeService :: "registry \<Rightarrow> bytes \<Rightarrow> string \<Rightarrow> bool" where
  "hasNodeService reg nodePubKey service =
     (case getSn reg nodePubKey of
        None \<Rightarrow> False
      | Some snode \<Rightarrow> hasService reg snode service)"

text \<open>
  The nodes that the selection is to return: running, of the requested version, not
  excluded, known to the registry under their key, advertising every requested service.
\<close>

definition eligible :: "registry \<Rightarrow> string list \<Rightarrow> 32 word \<Rightarrow> bytes set \<Rightarrow> ServiceNode \<Rightarrow> bool" where
  "eligible reg requested_services version notIn x =
     (running x \<and> getXBridgeVersion x = version \<and> getSnodePubKey x \<notin> notIn
      \<and> lookupSn reg (getSnodePubKey x) \<noteq> None
      \<and> set requested_services \<subseteq> set (serviceList x))"

text \<open>Three service nodes and a registry that knows them under their keys.\<close>

definition node_fixture :: "bytes \<Rightarrow> string list \<Rightarrow> ServiceNode" where
  "node_fixture key services =
     \<lparr>getSnodePubKey = key, getXBridgeVersion = 50, running = True, serviceList = services\<rparr>"

definition registry_fixture :: registry where
  "registry_fixture =
     \<lparr>snodes = [node_fixture [2] [''BTC'', ''LTC''], node_fixture [3] [''LTC'', ''DGB'', ''BTC''],
                node_fixture [4] [''BTC'']],
      getSn = (\<lambda>key. find (\<lambda>x. getSnodePubKey x = key)
                 [node_fixture [2] [''BTC'', ''LTC''], node_fixture [3] [''LTC'', ''DGB'', ''BTC''],
                  node_fixture [4] [''BTC'']]),
      Decompress = (\<lambda>key. None),
      hasService = (\<lambda>x service. service \<in> set (serviceList x))\<rparr>"

text \<open>A shuffle for the worked examples: it reverses the list and steps the engine.\<close>

definition shuffle_fixture :: "nat \<Rightarrow> bytes list \<Rightarrow> bytes list \<times> nat" where
  "shuffle_fixture g xs = (rev xs, Suc g)"

text \<open>
  The static engine over the life of the process. The declaration
  \<open>static std::default_random_engine rng{0}\<close> constructs the engine from the seed 0
  when a call first reaches it and never again: every later call shuffles with the
  engine in the state that the call before it left. \<open>default_random_engine\<close> stands
  for the library's constructor of the engine from a seed.
  \<open>findShuffledNodesWithService_calls\<close> gives the lists that successive calls return,
  from the first call of the process on, each call with the registry contents and the
  arguments it finds.
\<close>

fun calls_from ::
  "('g \<Rightarrow> bytes list \<Rightarrow> bytes list \<times> 'g) \<Rightarrow> (registry \<times> string list \<times> 32 word \<times> bytes set) list
     \<Rightarrow> 'g \<Rightarrow> bytes list list" where
  "calls_from shuffle [] rng = []"
| "calls_from shuffle ((reg, requested_services, version, notIn) # rest) rng =
     (case findShuffledNodesWithService shuffle reg requested_services version notIn rng of
        (lst, rng') \<Rightarrow> lst # calls_from shuffle rest rng')"

definition findShuffledNodesWithService_calls ::
  "('g \<Rightarrow> bytes list \<Rightarrow> bytes list \<times> 'g) \<Rightarrow> (nat \<Rightarrow> 'g)
     \<Rightarrow> (registry \<times> string list \<times> 32 word \<times> bytes set) list \<Rightarrow> bytes list list" where
  "findShuffledNodesWithService_calls shuffle default_random_engine calls =
     calls_from shuffle calls (default_random_engine 0)"

text \<open>
  An engine and a shuffle for the worked examples. The engine is \<open>minstd_rand0\<close> of
  the C++ standard, a linear congruential engine with the multiplier 16807 and the
  modulus \<open>2^31 - 1\<close>; a seed that is 0 modulo the modulus gives the state 1. The
  shuffle goes from the last position down to the second and exchanges each with a
  position at or below it, drawn from the engine. The library's \<open>std::shuffle\<close> may
  draw in another way.
\<close>

definition minstd_rand0 :: "nat \<Rightarrow> nat" where
  "minstd_rand0 seed = (if seed mod 2147483647 = 0 then 1 else seed mod 2147483647)"

definition minstd_next :: "nat \<Rightarrow> nat" where
  "minstd_next g = (16807 * g) mod 2147483647"

fun exchange_down :: "nat \<Rightarrow> nat \<Rightarrow> 'a list \<Rightarrow> 'a list \<times> nat" where
  "exchange_down 0 g xs = (xs, g)"
| "exchange_down (Suc i) g xs =
     (let g' = minstd_next g;
          j = g' mod (i + 2)
      in exchange_down i g' (xs[Suc i := xs ! j, j := xs ! Suc i]))"

definition shuffle_minstd :: "nat \<Rightarrow> 'a list \<Rightarrow> 'a list \<times> nat" where
  "shuffle_minstd g xs = exchange_down (length xs - 1) g xs"

section \<open>Rebroadcast of stuck orders\<close>

text \<open>
  Modelled from the spec: the methods \<open>updateTimestamp()\<close>, \<open>excludeNode\<close> and
  \<open>assignServicenode\<close> of \<open>TransactionDescr\<close> are declared in
  \<open>xbridgetransactiondescr.h\<close>, which is not among the sources. By sections 3 and 4.6
  of the specification the rebroadcast advances the order's txtime, the order keeps
  an exclusion set of the service nodes that failed to relay it, and an order names its
  service node by public key and session address. \<open>now\<close> is the reading of the
  microsecond clock, \<open>GetID\<close> the key's identifier (\<open>CPubKey::GetID\<close>).
\<close>

definition updateTimestamp :: "int \<Rightarrow> 'd TransactionDescr \<Rightarrow> 'd TransactionDescr" where
  "updateTimestamp now order = order\<lparr>txtime := now\<rparr>"

definition excludeNode :: "bytes \<Rightarrow> 'd TransactionDescr \<Rightarrow> 'd TransactionDescr" where
  "excludeNode key order = order\<lparr>excludedNodes := insert key (excludedNodes order)\<rparr>"

definition assignServicenode ::
  "(bytes \<Rightarrow> bytes) \<Rightarrow> bytes \<Rightarrow> 'd TransactionDescr \<Rightarrow> 'd TransactionDescr" where
  "assignServicenode GetID snode order = order\<lparr>hubAddress := GetID snode, sPubKey := snode\<rparr>"

text \<open>
  \<open>App::Impl::sendPendingTransaction\<close>: the packets handed to \<open>onSend\<close>, none or
  one. The order-announce packet is built from the fields of the descriptor and signed
  with its M key; the pair of the destination and the descriptor stands for it.
\<close>

definition sendPendingTransaction :: "'d TransactionDescr \<Rightarrow> (bytes \<times> 'd TransactionDescr) list" where
  "sendPendingTransaction ptr =
     (if hubAddress ptr = [] then []
      else if tx_from ptr = [] \<or> tx_to ptr = [] then []
      else [(hubAddress ptr, ptr)])"

text \<open>
  The elements of \<open>std::set<std::string>{order->fromCurrency, order->toCurrency}\<close>.
  (The set hands them out in sorted order; the selection does not depend on the order.)
\<close>

definition currencies :: "'d TransactionDescr \<Rightarrow> string list" where
  "currencies order =
     (if fromCurrency order = toCurrency order then [fromCurrency order]
      else [fromCurrency order, toCurrency order])"

text \<open>
  The block "pick new servicenode" that both branches of
  \<open>checkAndRelayPendingOrders\<close> contain: the current node (\<open>CPubKey::Set\<close> of the
  stored bytes) joins the nodes to avoid; a node that is found is assigned and the old
  one excluded, otherwise the order keeps its node.
\<close>

definition pickNewServicenode ::
  "('g \<Rightarrow> bytes list \<Rightarrow> bytes list \<times> 'g) \<Rightarrow> registry \<Rightarrow> 32 word \<Rightarrow> (bytes \<Rightarrow> bytes)
     \<Rightarrow> 'd TransactionDescr \<Rightarrow> 'g \<Rightarrow> 'd TransactionDescr \<times> 'g" where
  "pickNewServicenode shuffle reg ver GetID order rng =
     (let oldsnode = sPubKey order;
          notIn = insert oldsnode (excludedNodes order)
      in case findNodeWithService shuffle reg ver (currencies order) notIn rng of
           (None, rng') \<Rightarrow> (order, rng')
         | (Some snode, rng') \<Rightarrow> (assignServicenode GetID snode (excludeNode oldsnode order), rng'))"

text \<open>
  The body of the loop of \<open>App::Impl::checkAndRelayPendingOrders\<close> for one order of
  the snapshot: the order afterwards, the packets sent and the state of the shuffle
  engine. \<open>currentTime\<close> is the reading of the clock at the start of the pass,
  \<open>isLocal\<close> the method of the missing header.
\<close>

definition relayOrder ::
  "('g \<Rightarrow> bytes list \<Rightarrow> bytes list \<times> 'g) \<Rightarrow> registry \<Rightarrow> 32 word \<Rightarrow> (bytes \<Rightarrow> bytes)
     \<Rightarrow> ('d TransactionDescr \<Rightarrow> bool) \<Rightarrow> int \<Rightarrow> int \<Rightarrow> 'd TransactionDescr \<Rightarrow> 'g
     \<Rightarrow> 'd TransactionDescr \<times> (bytes \<times> 'd TransactionDescr) list \<times> 'g" where
  "relayOrder shuffle reg ver GetID isLocal currentTime now order rng =
     (if \<not> isLocal order then (order, [], rng)
      else
        let pendingOrderShouldRebroadcast = total_seconds (currentTime - txtime order) \<ge> 240;
            newOrderShouldRebroadcast = total_seconds (currentTime - txtime order) \<ge> 15
        in if newOrderShouldRebroadcast \<and> state order = trNew then
             (case pickNewServicenode shuffle reg ver GetID order rng of
                (order1, rng') \<Rightarrow>
                  let order2 = updateTimestamp now order1
                  in (order2, sendPendingTransaction order2, rng'))
           else if pendingOrderShouldRebroadcast \<and> state order = trPending then
             (let order1 = updateTimestamp now order;
                  oldsnode = sPubKey order1
              in case (if \<not> hasNodeService reg oldsnode (fromCurrency order1)
                          \<or> \<not> hasNodeService reg oldsnode (toCurrency order1)
                       then pickNewServicenode shuffle reg ver GetID order1 rng
                       else (order1, rng)) of
                   (order2, rng') \<Rightarrow> (order2, sendPendingTransaction order2, rng'))
           else (order, [], rng))"

text \<open>
  The nodes that may replace the order's service node: eligible for the order's two
  currencies, the current node and the order's exclusion set left out.
\<close>

definition replacements :: "registry \<Rightarrow> 32 word \<Rightarrow> 'd TransactionDescr \<Rightarrow> bytes list" where
  "replacements reg ver order =
     map getSnodePubKey
       (filter (eligible reg (currencies order) ver (insert (sPubKey order) (excludedNodes order)))
          (snodes reg))"

text \<open>
  \<open>reassigned reg ver GetID order order'\<close>: \<open>order'\<close> is \<open>order\<close> with one of the
  replacement nodes assigned and the old node excluded, or \<open>order\<close> itself when there
  is no replacement.
\<close>

definition reassigned ::
  "registry \<Rightarrow> 32 word \<Rightarrow> (bytes \<Rightarrow> bytes) \<Rightarrow> 'd TransactionDescr \<Rightarrow> 'd TransactionDescr \<Rightarrow> bool" where
  "reassigned reg ver GetID order order' =
     ((replacements reg ver order = [] \<and> order' = order)
      \<or> (\<exists>snode \<in> set (replacements reg ver order).
            order' = order\<lparr>excludedNodes := insert (sPubKey order) (excludedNodes order),
                           hubAddress := GetID snode, sPubKey := snode\<rparr>))"

text \<open>A local order in state New that was last updated at time 0, relayed by node 3.\<close>

definition stuck_order :: "'d TransactionDescr" where
  "stuck_order = order_fixture\<lparr>toCurrency := ''DGB'', tx_from := [1], tx_to := [2],
     hubAddress := [3], sPubKey := [3]\<rparr>"

definition isLocal_fixture :: "'d TransactionDescr \<Rightarrow> bool" where
  "isLocal_fixture order = (tx_from order \<noteq> [] \<and> tx_to order \<noteq> [])"

section \<open>BCH signature hash\<close>

text \<open>
  The transaction types of \<open>primitives/transaction.h\<close> and
  \<open>xbridge/xbitcointransaction.h\<close> are not among the sources; the records have the
  fields that \<open>SignatureHash\<close> reads.
\<close>

record COutPoint =
  outpoint_hash :: uint256
  outpoint_n :: "32 word"

record CTxIn =
  prevout :: COutPoint
  scriptSig :: bytes
  nSequence :: "32 word"

record CTxOut =
  nValue :: "64 word"
  scriptPubKey :: bytes

record CTransaction =
  nVersion :: "32 word"
  tx_vin :: "CTxIn list"
  tx_vout :: "CTxOut list"
  nLockTime :: "32 word"

text \<open>
  \<open>CHashWriter\<close> and the serialisation of the values written to it (\<open>hash.h\<close>,
  \<open>serialize.h\<close>) are not among the sources either. \<open>ss << x\<close> appends the
  serialisation of \<open>x\<close> to the bytes written so far and \<open>GetHash\<close> is the double
  SHA-256 of these bytes; the serialisers and the hash function are the fields of a
  record that \<open>SignatureHash\<close> takes as an argument.
\<close>

record hash_writer =
  ser32 :: "32 word \<Rightarrow> bytes"
  ser64 :: "64 word \<Rightarrow> bytes"
  ser256 :: "uint256 \<Rightarrow> bytes"
  ser_outpoint :: "COutPoint \<Rightarrow> bytes"
  ser_script :: "bytes \<Rightarrow> bytes"
  ser_txout :: "CTxOut \<Rightarrow> bytes"
  GetHash :: "bytes \<Rightarrow> uint256"

definition SCRIPT_ENABLE_SIGHASH_FORKID :: "32 word" where
  "SCRIPT_ENABLE_SIGHASH_FORKID = push_bit 16 1"

definition SCRIPT_ENABLE_REPLAY_PROTECTION :: "32 word" where
  "SCRIPT_ENABLE_REPLAY_PROTECTION = push_bit 17 1"

definition SIGHASH_ALL :: "32 word" where "SIGHASH_ALL = 1"
definition SIGHASH_NONE :: "32 word" where "SIGHASH_NONE = 2"
definition SIGHASH_SINGLE :: "32 word" where "SIGHASH_SINGLE = 3"
definition SIGHASH_FORKID :: "32 word" where "SIGHASH_FORKID = 0x40"
definition SIGHASH_ANYONECANPAY :: "32 word" where "SIGHASH_ANYONECANPAY = 0x80"

text \<open>
  \<open>class SigHashType\<close> wraps a \<open>uint32_t\<close>; its methods are functions on that word.
  \<open>BaseSigHashType\<close> is an enumeration over \<open>uint8_t\<close>.
\<close>

definition withForkValue :: "32 word \<Rightarrow> 32 word \<Rightarrow> 32 word" where
  "withForkValue sigHash forkId = (push_bit 8 forkId) OR (sigHash AND 0xff)"

definition withForkId :: "32 word \<Rightarrow> bool \<Rightarrow> 32 word" where
  "withForkId sigHash forkId =
     (sigHash AND NOT SIGHASH_FORKID) OR (if forkId then SIGHASH_FORKID else 0)"

definition getBaseType :: "32 word \<Rightarrow> 8 word" where
  "getBaseType sigHash = ucast (sigHash AND 0x1f)"

definition getForkValue :: "32 word \<Rightarrow> 32 word" where
  "getForkValue sigHash = drop_bit 8 sigHash"

definition hasForkId :: "32 word \<Rightarrow> bool" where
  "hasForkId sigHash = (sigHash AND SIGHASH_FORKID \<noteq> 0)"

definition hasAnyoneCanPay :: "32 word \<Rightarrow> bool" where
  "hasAnyoneCanPay sigHash = (sigHash AND SIGHASH_ANYONECANPAY \<noteq> 0)"

definition getRawSigHashType :: "32 word \<Rightarrow> 32 word" where
  "getRawSigHashType sigHash = sigHash"

definition BaseSigHashType_NONE :: "8 word" where "BaseSigHashType_NONE = ucast SIGHASH_NONE"
definition BaseSigHashType_SINGLE :: "8 word" where "BaseSigHashType_SINGLE = ucast SIGHASH_SINGLE"

definition GetPrevoutHash :: "hash_writer \<Rightarrow> CTransaction \<Rightarrow> uint256" where
  "GetPrevoutHash ss txTo =
     GetHash ss (concat (map (\<lambda>txin. ser_outpoint ss (prevout txin)) (tx_vin txTo)))"

definition GetSequenceHash :: "hash_writer \<Rightarrow> CTransaction \<Rightarrow> uint256" where
  "GetSequenceHash ss txTo =
     GetHash ss (concat (map (\<lambda>txin. ser32 ss (nSequence txin)) (tx_vin txTo)))"

definition GetOutputsHash :: "hash_writer \<Rightarrow> CTransaction \<Rightarrow> uint256" where
  "GetOutputsHash ss txTo = GetHash ss (concat (map (ser_txout ss) (tx_vout txTo)))"

text \<open>
  \<open>SignatureHash\<close>. The source reads \<open>txTo.vin[nIn]\<close> without a check; the model
  has no result (\<open>None\<close>) where that read is out of range. \<open>cache\<close> is always null,
  so the three hashes are always computed. Without the fork id the source returns the
  zero hash.
\<close>

definition SignatureHash ::
  "hash_writer \<Rightarrow> bytes \<Rightarrow> CTransaction \<Rightarrow> nat \<Rightarrow> 32 word \<Rightarrow> 64 word \<Rightarrow> uint256 option" where
  "SignatureHash ss scriptCode txTo nIn sigHashType0 amt =
     (let flags = SCRIPT_ENABLE_SIGHASH_FORKID OR SCRIPT_ENABLE_REPLAY_PROTECTION;
          sigHashType =
            (if flags AND SCRIPT_ENABLE_REPLAY_PROTECTION \<noteq> 0
             then (let newForkValue = getForkValue sigHashType0 XOR 0xdead
                   in withForkValue sigHashType0 (0xff0000 OR newForkValue))
             else sigHashType0)
      in if hasForkId sigHashType \<and> flags AND SCRIPT_ENABLE_SIGHASH_FORKID \<noteq> 0 then
           (let hashPrevouts =
                  (if \<not> hasAnyoneCanPay sigHashType then GetPrevoutHash ss txTo else 0);
                hashSequence =
                  (if \<not> hasAnyoneCanPay sigHashType
                      \<and> getBaseType sigHashType \<noteq> BaseSigHashType_SINGLE
                      \<and> getBaseType sigHashType \<noteq> BaseSigHashType_NONE
                   then GetSequenceHash ss txTo else 0);
                hashOutputs =
                  (if getBaseType sigHashType \<noteq> BaseSigHashType_SINGLE
                      \<and> getBaseType sigHashType \<noteq> BaseSigHashType_NONE
                   then GetOutputsHash ss txTo
                   else if getBaseType sigHashType = BaseSigHashType_SINGLE
                           \<and> nIn < length (tx_vout txTo)
                   then GetHash ss (ser_txout ss (tx_vout txTo ! nIn))
                   else 0)
            in if nIn < length (tx_vin txTo) then
                 Some (GetHash ss
                   (ser32 ss (nVersion txTo)
                    @ ser256 ss hashPrevouts
                    @ ser256 ss hashSequence
                    @ ser_outpoint ss (prevout (tx_vin txTo ! nIn))
                    @ ser_script ss scriptCode
                    @ ser64 ss amt
                    @ ser32 ss (nSequence (tx_vin txTo ! nIn))
                    @ ser256 ss hashOutputs
                    @ ser32 ss (nLockTime txTo)
                    @ ser32 ss (getRawSigHashType sigHashType)))
               else None)
         else Some 0)"

text \<open>
  The signing step that \<open>BchWalletConnector::createPaymentTransaction\<close> and
  \<open>createRefundTransaction\<close> share: the hash of input 0 under
  \<open>SigHashType(SIGHASH_ALL).withForkId()\<close>, the signature by the crypto provider
  (\<open>sign\<close>, with no result when it fails) and the byte pushed onto it. \<open>amt\<close> is the
  value \<open>inputs[0].amount*COIN\<close> as passed to \<open>SignatureHash\<close> (its parameter
  \<open>amount\<close>).
\<close>

definition signInput ::
  "hash_writer \<Rightarrow> (bytes \<Rightarrow> uint256 \<Rightarrow> bytes option) \<Rightarrow> bytes \<Rightarrow> bytes \<Rightarrow> CTransaction
     \<Rightarrow> 64 word \<Rightarrow> bytes option" where
  "signInput ss sign mprivKey inner txUnsigned amt =
     (let sigHashType = withForkId SIGHASH_ALL True
      in case SignatureHash ss inner txUnsigned 0 sigHashType amt of
           None \<Rightarrow> None
         | Some hash \<Rightarrow>
             (case sign mprivKey hash of
                None \<Rightarrow> None
              | Some sig \<Rightarrow> Some (sig @ [ucast (getRawSigHashType sigHashType)])))"

text \<open>
  The preimage in the words of the specification: version, hash of the prevouts, hash
  of the sequence numbers, the outpoint of the input, the script code, the amount, the
  sequence number of the input, hash of the outputs, lock time, sighash type; each of
  the three hashes is the double SHA-256 of the concatenated fields.
\<close>

definition spec_preimage ::
  "hash_writer \<Rightarrow> bytes \<Rightarrow> CTransaction \<Rightarrow> nat \<Rightarrow> 64 word \<Rightarrow> 32 word \<Rightarrow> bytes" where
  "spec_preimage ss scriptCode txTo nIn amt sigHashType =
     ser32 ss (nVersion txTo)
     @ ser256 ss (GetHash ss (concat (map (\<lambda>txin. ser_outpoint ss (prevout txin)) (tx_vin txTo))))
     @ ser256 ss (GetHash ss (concat (map (\<lambda>txin. ser32 ss (nSequence txin)) (tx_vin txTo))))
     @ ser_outpoint ss (prevout (tx_vin txTo ! nIn))
     @ ser_script ss scriptCode
     @ ser64 ss amt
     @ ser32 ss (nSequence (tx_vin txTo ! nIn))
     @ ser256 ss (GetHash ss (concat (map (ser_txout ss) (tx_vout txTo))))
     @ ser32 ss (nLockTime txTo)
     @ ser32 ss sigHashType"

text \<open>A hash writer that writes one byte per value and hashes to the number of bytes.\<close>

definition hash_writer_fixture :: hash_writer where
  "hash_writer_fixture =
     \<lparr>ser32 = (\<lambda>w. [ucast w]), ser64 = (\<lambda>w. [ucast w]), ser256 = (\<lambda>w. [ucast w]),
      ser_outpoint = (\<lambda>p. [ucast (outpoint_n p)]), ser_script = (\<lambda>b. b),
      ser_txout = (\<lambda>out. [ucast (nValue out)]),
      GetHash = (\<lambda>b. of_nat (length b))\<rparr>"

definition transaction_fixture :: CTransaction where
  "transaction_fixture =
     \<lparr>nVersion = 1,
      tx_vin = [\<lparr>prevout = \<lparr>outpoint_hash = 0, outpoint_n = 0\<rparr>, scriptSig = [],
                 nSequence = 0xffffffff\<rparr>],
      tx_vout = [\<lparr>nValue = 12000, scriptPubKey = [0x76]\<rparr>],
      nLockTime = 0\<rparr>"

section \<open>UTXO selection\<close>

text \<open>
  The arithmetic of \<open>double\<close> that the sources use, as the fields of a record:
  addition, subtraction, multiplication, division, the conversion of an integer value
  to \<open>double\<close>, the constant \<open>0.5\<close>, and the conversions of a \<open>double\<close> to
  \<open>uint64_t\<close> and to \<open>int64_t\<close>. No law of arithmetic is assumed of them.
\<close>

record 'd double_ops =
  d_add :: "'d \<Rightarrow> 'd \<Rightarrow> 'd"
  d_sub :: "'d \<Rightarrow> 'd \<Rightarrow> 'd"
  d_mul :: "'d \<Rightarrow> 'd \<Rightarrow> 'd"
  d_div :: "'d \<Rightarrow> 'd \<Rightarrow> 'd"
  d_of_int :: "int \<Rightarrow> 'd"
  d_half :: 'd
  d_to_u64 :: "'d \<Rightarrow> 64 word"
  d_to_i64 :: "'d \<Rightarrow> 64 word"

text \<open>The lambda \<open>feeAmount\<close> of \<open>App::selectUtxos\<close>.\<close>

definition feeAmount ::
  "'d double_ops \<Rightarrow> (32 word \<Rightarrow> 32 word \<Rightarrow> 'd) \<Rightarrow> (32 word \<Rightarrow> 32 word \<Rightarrow> 'd)
     \<Rightarrow> 'd \<Rightarrow> 32 word \<Rightarrow> 32 word \<Rightarrow> 'd" where
  "feeAmount ops minTxFee1 minTxFee2 amt inputs outputs =
     d_add ops (d_add ops amt (minTxFee1 inputs outputs)) (minTxFee2 1 1)"

text \<open>
  The first loop of the lambda \<open>selUtxos\<close>: it stops at the first entry in the ideal
  range (with a matching address, if an address was given) and sorts the entries before
  it into \<open>gt\<close> and \<open>lt\<close>. The result is that entry, if any, with \<open>gt\<close> and \<open>lt\<close>.
\<close>

fun ideal_loop ::
  "'d::linorder \<Rightarrow> 'd \<Rightarrow> string \<Rightarrow> 'd UtxoEntry list \<Rightarrow> 'd UtxoEntry list \<Rightarrow> 'd UtxoEntry list
     \<Rightarrow> 'd UtxoEntry option \<times> 'd UtxoEntry list \<times> 'd UtxoEntry list" where
  "ideal_loop minAmount upper addr [] gt lt = (None, gt, lt)"
| "ideal_loop minAmount upper addr (utxo # rest) gt lt =
     (if amount utxo \<ge> minAmount \<and> amount utxo < upper \<and> (address utxo = addr \<or> addr = [])
        then (Some utxo, gt, lt)
      else if amount utxo \<ge> minAmount then ideal_loop minAmount upper addr rest (gt @ [utxo]) lt
      else if amount utxo < minAmount then ideal_loop minAmount upper addr rest gt (lt @ [utxo])
      else ideal_loop minAmount upper addr rest gt lt)"

text \<open>
  The running amount of the last loop for the selected entries \<open>sel\<close>: the fees for
  that many inputs, negated, then the amounts added one after the other.
\<close>

definition runningAmount ::
  "'d double_ops \<Rightarrow> (32 word \<Rightarrow> 32 word \<Rightarrow> 'd) \<Rightarrow> (32 word \<Rightarrow> 32 word \<Rightarrow> 'd)
     \<Rightarrow> 'd UtxoEntry list \<Rightarrow> 'd" where
  "runningAmount ops minTxFee1 minTxFee2 sel =
     (let fee1 = minTxFee1 (of_nat (length sel)) 3;
          fee2 = minTxFee2 1 1
      in foldl (\<lambda>r u. d_add ops r (amount u))
           (d_mul ops (d_add ops fee1 fee2) (d_of_int ops (- 1))) sel)"

text \<open>
  The last loop: entries of the sorted \<open>lt\<close> join \<open>sel\<close> until the running amount
  reaches \<open>minAmount\<close>; the result is what is appended to the output, nothing when
  the amount is never reached.
\<close>

fun accumulate ::
  "'d::linorder double_ops \<Rightarrow> (32 word \<Rightarrow> 32 word \<Rightarrow> 'd) \<Rightarrow> (32 word \<Rightarrow> 32 word \<Rightarrow> 'd) \<Rightarrow> 'd
     \<Rightarrow> 'd UtxoEntry list \<Rightarrow> 'd UtxoEntry list \<Rightarrow> 'd UtxoEntry list" where
  "accumulate ops minTxFee1 minTxFee2 minAmount [] sel = []"
| "accumulate ops minTxFee1 minTxFee2 minAmount (utxo # rest) sel =
     (if runningAmount ops minTxFee1 minTxFee2 (sel @ [utxo]) \<ge> minAmount then sel @ [utxo]
      else accumulate ops minTxFee1 minTxFee2 minAmount rest (sel @ [utxo]))"

text \<open>The two comparators handed to \<open>std::sort\<close>.\<close>

definition amount_less :: "'d::linorder UtxoEntry \<Rightarrow> 'd UtxoEntry \<Rightarrow> bool" where
  "amount_less a b = (amount a < amount b)"

definition amount_greater :: "'d::linorder UtxoEntry \<Rightarrow> 'd UtxoEntry \<Rightarrow> bool" where
  "amount_greater a b = (amount a > amount b)"

text \<open>
  The lambda \<open>selUtxos\<close>: the output vector \<open>o\<close> after the call. \<open>std::sort\<close> is
  the argument \<open>std_sort\<close>, which takes the comparator: the order it gives to entries of
  equal amount is not fixed by the language.
\<close>

definition selUtxos ::
  "'d::linorder double_ops \<Rightarrow> (('d UtxoEntry \<Rightarrow> 'd UtxoEntry \<Rightarrow> bool) \<Rightarrow> 'd UtxoEntry list \<Rightarrow> 'd UtxoEntry list)
     \<Rightarrow> (32 word \<Rightarrow> 32 word \<Rightarrow> 'd) \<Rightarrow> (32 word \<Rightarrow> 32 word \<Rightarrow> 'd) \<Rightarrow> string
     \<Rightarrow> 'd UtxoEntry list \<Rightarrow> 'd UtxoEntry list \<Rightarrow> 'd \<Rightarrow> 'd UtxoEntry list" where
  "selUtxos ops std_sort minTxFee1 minTxFee2 addr a o_out amt =
     (let minAmount = feeAmount ops minTxFee1 minTxFee2 amt 1 3;
          upper = d_add ops minAmount
                    (d_mul ops (d_add ops (minTxFee1 1 3) (minTxFee2 1 1)) (d_of_int ops 1000))
      in case ideal_loop minAmount upper addr a [] [] of
           (Some utxo, gt, lt) \<Rightarrow> o_out @ [utxo]
         | (None, gt, lt) \<Rightarrow>
             if length gt = 1 then o_out @ [gt ! 0]
             else if length gt > 1 then o_out @ [std_sort amount_less gt ! 0]
             else if length lt < 2 then o_out
             else o_out @ accumulate ops minTxFee1 minTxFee2 minAmount (std_sort amount_greater lt) [])"

text \<open>
  \<open>App::selectUtxos\<close>: the returned flag and the four in-out arguments
  \<open>outputsForUse\<close>, \<open>utxoAmount\<close>, \<open>fee1\<close>, \<open>fee2\<close> after the call.
\<close>

definition selectUtxos ::
  "'d::linorder double_ops \<Rightarrow> (('d UtxoEntry \<Rightarrow> 'd UtxoEntry \<Rightarrow> bool) \<Rightarrow> 'd UtxoEntry list \<Rightarrow> 'd UtxoEntry list)
     \<Rightarrow> string \<Rightarrow> 'd UtxoEntry list \<Rightarrow> (32 word \<Rightarrow> 32 word \<Rightarrow> 'd) \<Rightarrow> (32 word \<Rightarrow> 32 word \<Rightarrow> 'd)
     \<Rightarrow> 64 word \<Rightarrow> 64 word \<Rightarrow> 'd UtxoEntry list \<Rightarrow> 64 word \<Rightarrow> 64 word \<Rightarrow> 64 word
     \<Rightarrow> bool \<times> 'd UtxoEntry list \<times> 64 word \<times> 64 word \<times> 64 word" where
  "selectUtxos ops std_sort addr outputs minTxFee1 minTxFee2 requiredAmount coinDenomination
       outputsForUse0 utxoAmount0 fee1_0 fee2_0 =
     (let utxos = std_sort amount_greater outputs;
          coin = d_of_int ops (sint coinDenomination);
          outputsForUse = selUtxos ops std_sort minTxFee1 minTxFee2 addr utxos outputsForUse0
                            (d_div ops (d_of_int ops (uint requiredAmount)) coin)
      in if outputsForUse = [] then (False, outputsForUse, utxoAmount0, fee1_0, fee2_0)
         else (True, outputsForUse,
               foldl (\<lambda>utxoAmount utxo.
                        d_to_u64 ops (d_add ops (d_of_int ops (uint utxoAmount))
                                        (d_mul ops (amount utxo) coin)))
                 utxoAmount0 outputsForUse,
               d_to_u64 ops (d_mul ops (minTxFee1 (of_nat (length outputsForUse)) 3) coin),
               d_to_u64 ops (d_mul ops (minTxFee2 1 1) coin)))"


text \<open>
  What the language promises of \<open>std::sort\<close> for the two comparators: the result is
  a rearrangement of the input, in descending respectively ascending order of amount.
\<close>

definition sort_conforms ::
  "(('d::linorder UtxoEntry \<Rightarrow> 'd UtxoEntry \<Rightarrow> bool) \<Rightarrow> 'd UtxoEntry list \<Rightarrow> 'd UtxoEntry list) \<Rightarrow> bool" where
  "sort_conforms std_sort =
     (\<forall>xs. mset (std_sort amount_greater xs) = mset xs
         \<and> sorted_wrt (\<lambda>a b. amount a \<ge> amount b) (std_sort amount_greater xs)
         \<and> mset (std_sort amount_less xs) = mset xs
         \<and> sorted_wrt (\<lambda>a b. amount a \<le> amount b) (std_sort amount_less xs))"

text \<open>
  The algorithm in the words of the specification (section 4.4). \<open>need\<close> is the
  amount plus the fees \<open>fee1(1,3)\<close> and \<open>fee2(1,1)\<close>; a candidate is preferred when
  its amount lies in the range from \<open>need\<close> up to, but not including, \<open>need\<close> plus
  1000 times these fees, and its address is the given one if one was given.
\<close>

definition need ::
  "'d double_ops \<Rightarrow> (32 word \<Rightarrow> 32 word \<Rightarrow> 'd) \<Rightarrow> (32 word \<Rightarrow> 32 word \<Rightarrow> 'd) \<Rightarrow> 'd \<Rightarrow> 'd" where
  "need ops fee1 fee2 A = d_add ops (d_add ops A (fee1 1 3)) (fee2 1 1)"

definition preferred ::
  "'d::linorder double_ops \<Rightarrow> (32 word \<Rightarrow> 32 word \<Rightarrow> 'd) \<Rightarrow> (32 word \<Rightarrow> 32 word \<Rightarrow> 'd) \<Rightarrow> string
     \<Rightarrow> 'd \<Rightarrow> 'd UtxoEntry \<Rightarrow> bool" where
  "preferred ops fee1 fee2 addr A u =
     (need ops fee1 fee2 A \<le> amount u
      \<and> amount u < d_add ops (need ops fee1 fee2 A)
                       (d_mul ops (d_add ops (fee1 1 3) (fee2 1 1)) (d_of_int ops 1000))
      \<and> (address u = addr \<or> addr = []))"

text \<open>
  The running total of a run of entries, net of fees, in the words of the
  specification: the fees are recomputed on the current count, that is \<open>fee1(n,3)\<close>
  for the number \<open>n\<close> of entries of the run, and \<open>fee2(1,1)\<close>; they are taken off
  and the amounts of the entries are added one after the other.
\<close>

primrec add_amounts :: "'d double_ops \<Rightarrow> 'd \<Rightarrow> 'd UtxoEntry list \<Rightarrow> 'd" where
  "add_amounts ops acc [] = acc"
| "add_amounts ops acc (u # run) = add_amounts ops (d_add ops acc (amount u)) run"

definition net_total ::
  "'d double_ops \<Rightarrow> (32 word \<Rightarrow> 32 word \<Rightarrow> 'd) \<Rightarrow> (32 word \<Rightarrow> 32 word \<Rightarrow> 'd)
     \<Rightarrow> 'd UtxoEntry list \<Rightarrow> 'd" where
  "net_total ops fee1 fee2 run =
     add_amounts ops
       (d_mul ops (d_add ops (fee1 (of_nat (length run)) 3) (fee2 1 1)) (d_of_int ops (- 1))) run"

text \<open>
  \<open>selection_spec ops fee1 fee2 addr candidates A result\<close>: \<open>result\<close> is a selection
  that the specified algorithm allows for the candidates and the amount \<open>A\<close>; the
  empty result is the failure. A run of \<open>lt\<close> is measured by its running total net of
  the fees for its number of entries (\<open>net_total\<close>).
\<close>

definition selection_spec ::
  "'d::linorder double_ops \<Rightarrow> (32 word \<Rightarrow> 32 word \<Rightarrow> 'd) \<Rightarrow> (32 word \<Rightarrow> 32 word \<Rightarrow> 'd) \<Rightarrow> string
     \<Rightarrow> 'd UtxoEntry list \<Rightarrow> 'd \<Rightarrow> 'd UtxoEntry list \<Rightarrow> bool" where
  "selection_spec ops fee1 fee2 addr candidates A result =
     (let gt = filter (\<lambda>u. amount u \<ge> need ops fee1 fee2 A) candidates;
          lt = filter (\<lambda>u. amount u < need ops fee1 fee2 A) candidates
      in if \<exists>u \<in> set candidates. preferred ops fee1 fee2 addr A u
           then \<exists>u \<in> set candidates. preferred ops fee1 fee2 addr A u \<and> result = [u]
         else if length gt = 1 then result = gt
         else if length gt > 1
           then \<exists>g \<in> set gt. (\<forall>h \<in> set gt. amount g \<le> amount h) \<and> result = [g]
         else if length lt < 2 then result = []
         else \<exists>ls. mset ls = mset lt \<and> sorted_wrt (\<lambda>a b. amount a \<ge> amount b) ls
                \<and> ((result = []
                      \<and> (\<forall>n. 1 \<le> n \<and> n \<le> length ls \<longrightarrow>
                            net_total ops fee1 fee2 (take n ls) < need ops fee1 fee2 A))
                    \<or> (\<exists>n. 1 \<le> n \<and> n \<le> length ls \<and> result = take n ls
                          \<and> net_total ops fee1 fee2 result \<ge> need ops fee1 fee2 A
                          \<and> (\<forall>k. 1 \<le> k \<and> k < n \<longrightarrow>
                                net_total ops fee1 fee2 (take k ls) < need ops fee1 fee2 A))))"

section \<open>Arithmetic of \<open>double\<close> by rounding\<close>

text \<open>
  The arithmetic of IEEE 754: an operation yields the exact result, rounded. The
  doubles are read as the real numbers they denote, \<open>rnd\<close> is the rounding to
  \<open>double\<close>; the literal \<open>0.5\<close> is a double. A conversion to a 64-bit integer
  discards the fraction (\<open>trunc\<close>); the integer is taken modulo \<open>2^64\<close>, where C++
  leaves a value out of range undefined.
\<close>

definition trunc :: "real \<Rightarrow> int" where
  "trunc x = (if x \<ge> 0 then \<lfloor>x\<rfloor> else \<lceil>x\<rceil>)"

definition rounded_ops :: "(real \<Rightarrow> real) \<Rightarrow> real double_ops" where
  "rounded_ops rnd =
     \<lparr>d_add = (\<lambda>x y. rnd (x + y)), d_sub = (\<lambda>x y. rnd (x - y)),
      d_mul = (\<lambda>x y. rnd (x * y)), d_div = (\<lambda>x y. rnd (x / y)),
      d_of_int = (\<lambda>i. rnd (of_int i)), d_half = 1 / 2,
      d_to_u64 = (\<lambda>x. word_of_int (trunc x)), d_to_i64 = (\<lambda>x. word_of_int (trunc x))\<rparr>"

text \<open>A sort by insertion, for the worked examples.\<close>

fun insert_by :: "('a \<Rightarrow> 'a \<Rightarrow> bool) \<Rightarrow> 'a \<Rightarrow> 'a list \<Rightarrow> 'a list" where
  "insert_by cmp x [] = [x]"
| "insert_by cmp x (y # ys) = (if cmp y x then y # insert_by cmp x ys else x # y # ys)"

definition sort_fixture :: "('a \<Rightarrow> 'a \<Rightarrow> bool) \<Rightarrow> 'a list \<Rightarrow> 'a list" where
  "sort_fixture cmp xs = foldr (insert_by cmp) xs []"

text \<open>Fees of one unit per input and output, and none for the second transaction.\<close>

definition fee1_fixture :: "32 word \<Rightarrow> 32 word \<Rightarrow> real" where
  "fee1_fixture inputs outputs = real (unat inputs + unat outputs)"

definition fee2_fixture :: "32 word \<Rightarrow> 32 word \<Rightarrow> real" where
  "fee2_fixture inputs outputs = 0"

section \<open>Amounts and coin values\<close>

text \<open>
  \<open>xBridgeValueFromAmount\<close> and \<open>xBridgeAmountFromReal\<close> of \<open>xutil.cpp\<close>. The scale
  \<open>xbridge::TransactionDescr::COIN\<close> is declared in a header that is not among the
  sources; it is the argument \<open>COIN\<close>. The result of the second function is the
  \<open>int64_t\<close> \<open>r\<close> read as \<open>uint64_t\<close>, the same 64 bits.
\<close>

definition xBridgeValueFromAmount :: "'d double_ops \<Rightarrow> 64 word \<Rightarrow> 64 word \<Rightarrow> 'd" where
  "xBridgeValueFromAmount ops COIN amt =
     d_div ops (d_of_int ops (uint amt)) (d_of_int ops (uint COIN))"

definition xBridgeAmountFromReal :: "'d::linorder double_ops \<Rightarrow> 64 word \<Rightarrow> 'd \<Rightarrow> 64 word" where
  "xBridgeAmountFromReal ops COIN val =
     (let d = d_mul ops val (d_of_int ops (uint COIN));
          r = d_to_i64 ops (if d > d_of_int ops 0 then d_add ops d (d_half ops)
                            else d_sub ops d (d_half ops))
      in r)"

text \<open>
  The standard model of rounding to nearest: zero is exact, and the relative error of
  rounding a number between \<open>2^-64\<close> and \<open>2^64\<close> in magnitude is at most \<open>2^-53\<close>.
  The rounding of IEEE 754 \<open>binary64\<close> arithmetic is of this kind (these magnitudes
  are normal doubles).
\<close>

definition standard_rounding :: "(real \<Rightarrow> real) \<Rightarrow> bool" where
  "standard_rounding rnd =
     (rnd 0 = 0
      \<and> (\<forall>x. 1 / 2 ^ 64 \<le> \<bar>x\<bar> \<and> \<bar>x\<bar> \<le> 2 ^ 64 \<longrightarrow> \<bar>rnd x - x\<bar> \<le> \<bar>x\<bar> / 2 ^ 53))"

section \<open>Accepting an order\<close>

text \<open>The values of \<open>xbridge::Error\<close> that \<open>acceptXBridgeTransaction\<close> returns.\<close>

datatype Error =
    SUCCESS | TRANSACTION_NOT_FOUND | BAD_REQUEST | NO_SESSION | DUST | INSIFFICIENT_FUNDS_DX
  | NO_SERVICE_NODE | INVALID_ONCHAIN_HISTORY | INSIFFICIENT_FUNDS | FUNDS_NOT_SIGNED
  | INVALID_SIGNATURE | INVALID_ADDRESS

text \<open>
  Modelled from the spec: the wallet connector (section 3 and 4.1 of the
  specification) is declared in \<open>xbridgewalletconnector.h\<close>, which is not among the
  sources. The record has the members that \<open>acceptXBridgeTransaction\<close> uses. A
  method with an output parameter gives the value that the parameter has after the
  call; \<open>getUnspent\<close> gives the outputs for an exclusion set, \<open>getBlockCount\<close> and
  \<open>getBlockHash\<close> give no value when they fail.
\<close>

record 'd WalletConnector =
  currency :: string
  serviceNodeFee :: 'd
  isDustAmount :: "'d \<Rightarrow> bool"
  minTxFee1 :: "32 word \<Rightarrow> 32 word \<Rightarrow> 'd"
  minTxFee2 :: "32 word \<Rightarrow> 32 word \<Rightarrow> 'd"
  getUnspent :: "'d utxo_set \<Rightarrow> 'd UtxoEntry list"
  signMessage :: "string \<Rightarrow> string \<Rightarrow> bool \<times> string"
  toXAddr :: "string \<Rightarrow> bytes"
  getBlockCount :: "32 word option"
  getBlockHash :: "32 word \<Rightarrow> string option"
  newKeyPair :: "bytes \<times> bytes"

text \<open>
  What else \<open>acceptXBridgeTransaction\<close> takes from its surroundings: the connectors
  by currency, the rank of the states (the numeric order of \<open>enum State\<close>), the
  scale \<open>TransactionDescr::COIN\<close>, the balance of the BLOCK wallet, the node registry,
  whether the order's data is too large for the fee transaction even with a shortened
  order id, \<open>rpc::unspentP2PKH\<close> (no value when it fails),
  \<open>rpc::createFeeTransaction\<close> for the connector, the order and the fee outputs
  (its result and its two output parameters), \<open>UtxoEntry::toString\<close> and
  \<open>DecodeBase64\<close> (the bytes and the flag \<open>isInvalid\<close>).
\<close>

record 'd accept_env =
  connectorByCurrency :: "string \<Rightarrow> 'd WalletConnector option"
  stateRank :: "State \<Rightarrow> int"
  COIN :: "64 word"
  availableBalance :: 'd
  nodes :: registry
  infoTooLarge :: "'d TransactionDescr \<Rightarrow> bool"
  unspentP2PKH :: "'d UtxoEntry list option"
  createFeeTransaction ::
    "'d WalletConnector \<Rightarrow> 'd TransactionDescr \<Rightarrow> 'd UtxoEntry list \<Rightarrow> bool \<times> 'd utxo_set \<times> string"
  toString :: "'d UtxoEntry \<Rightarrow> string"
  DecodeBase64 :: "string \<Rightarrow> bytes \<times> bool"

text \<open>A write to the order through the pointer \<open>ptr\<close>.\<close>

definition set_order :: "uint256 \<Rightarrow> 'd TransactionDescr \<Rightarrow> 'd app_state \<Rightarrow> 'd app_state" where
  "set_order i ptr s = s\<lparr>m_transactions := (m_transactions s)(i \<mapsto> ptr)\<rparr>"

text \<open>
  \<open>App::getLockedUtxos\<close>: \<open>m_utxosDict[token]\<close> creates an empty set for a currency
  that has none.
\<close>

definition getLockedUtxos :: "string \<Rightarrow> 'd app_state \<Rightarrow> 'd utxo_set \<times> 'd app_state" where
  "getLockedUtxos token s =
     (case m_utxosDict s token of
        None \<Rightarrow> (Map.empty, s\<lparr>m_utxosDict := (m_utxosDict s)(token \<mapsto> Map.empty)\<rparr>)
      | Some utxos \<Rightarrow> (utxos, s))"

text \<open>
  \<open>App::getAllLockedUtxos\<close>: the fee locks are inserted first, so an entry of the
  fee locks stays where the currency's set has one of the same key.
\<close>

definition getAllLockedUtxos :: "string \<Rightarrow> 'd app_state \<Rightarrow> 'd utxo_set \<times> 'd app_state" where
  "getAllLockedUtxos token s =
     (let fees = m_feeUtxos s
      in case getLockedUtxos token s of (other, s') \<Rightarrow> (other ++ fees, s'))"

text \<open>\<open>App::lockFeeUtxos\<close> (an entry that is already locked stays) and \<open>App::unlockFeeUtxos\<close>.\<close>

definition lockFeeUtxos :: "'d utxo_set \<Rightarrow> 'd app_state \<Rightarrow> 'd app_state" where
  "lockFeeUtxos fees s = s\<lparr>m_feeUtxos := fees ++ m_feeUtxos s\<rparr>"

definition unlockFeeUtxos :: "'d utxo_set \<Rightarrow> 'd app_state \<Rightarrow> 'd app_state" where
  "unlockFeeUtxos fees s =
     s\<lparr>m_feeUtxos := (\<lambda>k. if fees k \<noteq> None then None else m_feeUtxos s k)\<rparr>"

text \<open>
  The body of the loop "sign used coins" for one entry: the entry with its signature
  and raw address, and the value of \<open>err\<close> at the end of the body.
\<close>

definition sign_entry ::
  "'d accept_env \<Rightarrow> 'd WalletConnector \<Rightarrow> 'd UtxoEntry \<Rightarrow> 'd UtxoEntry \<times> Error" where
  "sign_entry env connFrom entry =
     (case signMessage connFrom (address entry) (toString env entry) of
        (sig_ok, sig) \<Rightarrow>
          let err1 = (if \<not> sig_ok then FUNDS_NOT_SIGNED else SUCCESS)
          in case DecodeBase64 env sig of
               (decoded, isInvalid) \<Rightarrow>
                 let err2 = (if isInvalid then FUNDS_NOT_SIGNED else err1);
                     entry' = entry\<lparr>signature := decoded,
                                     rawAddress := toXAddr connFrom (address entry)\<rparr>;
                     err3 = (if length (signature entry') \<noteq> 65 then INVALID_SIGNATURE else err2);
                     err4 = (if length (rawAddress entry') \<noteq> 20 then INVALID_ADDRESS else err3)
                 in (entry', err4))"

text \<open>The loop: the error of the first entry that has one, or the signed entries.\<close>

fun sign_loop ::
  "'d accept_env \<Rightarrow> 'd WalletConnector \<Rightarrow> 'd UtxoEntry list \<Rightarrow> Error + 'd UtxoEntry list" where
  "sign_loop env connFrom [] = Inr []"
| "sign_loop env connFrom (entry # rest) =
     (case sign_entry env connFrom entry of
        (entry', err) \<Rightarrow>
          if err \<noteq> SUCCESS then Inl err
          else (case sign_loop env connFrom rest of
                  Inl err' \<Rightarrow> Inl err'
                | Inr rest' \<Rightarrow> Inr (entry' # rest')))"

text \<open>
  The block "Utxo selection" of \<open>App::acceptXBridgeTransaction\<close> for the order
  \<open>ptr\<close> (already in state Accepting) stored under \<open>i\<close>: \<open>SUCCESS\<close> when the
  block runs to its end, otherwise the error that the function returns; the order as
  the block leaves it; the state.
\<close>

definition accept_select_utxos ::
  "'d::linorder double_ops \<Rightarrow> (('d UtxoEntry \<Rightarrow> 'd UtxoEntry \<Rightarrow> bool) \<Rightarrow> 'd UtxoEntry list \<Rightarrow> 'd UtxoEntry list)
     \<Rightarrow> 'd accept_env \<Rightarrow> 'd WalletConnector \<Rightarrow> uint256 \<Rightarrow> string \<Rightarrow> State \<Rightarrow> 'd TransactionDescr
     \<Rightarrow> 'd app_state \<Rightarrow> Error \<times> 'd TransactionDescr \<times> 'd app_state" where
  "accept_select_utxos ops std_sort env connFrom i frm priorState ptr s =
     (case unspentP2PKH env of
        None \<Rightarrow> (INSIFFICIENT_FUNDS, ptr\<lparr>state := priorState\<rparr>,
                 set_order i (ptr\<lparr>state := priorState\<rparr>) s)
      | Some feeOutputs0 \<Rightarrow>
          (case getAllLockedUtxos (currency connFrom) s of
             (excludedUtxos, s1) \<Rightarrow>
               let feeOutputs = filter (\<lambda>u. \<not> set_count excludedUtxos u) feeOutputs0
               in case createFeeTransaction env connFrom ptr feeOutputs of
                    (fee_ok, fees, raw) \<Rightarrow>
                      let ptr1 = ptr\<lparr>feeUtxos := fees, rawFeeTx := raw\<rparr>
                      in if \<not> fee_ok
                           then (INSIFFICIENT_FUNDS, ptr1\<lparr>state := priorState\<rparr>,
                                 set_order i (ptr1\<lparr>state := priorState\<rparr>) s1)
                         else
                           let s2 = lockFeeUtxos (feeUtxos ptr1) s1
                           in case getAllLockedUtxos (currency connFrom) s2 of
                                (excludedUtxos2, s3) \<Rightarrow>
                                  let outputs = getUnspent connFrom excludedUtxos2
                                  in case selectUtxos ops std_sort frm outputs (minTxFee1 connFrom)
                                            (minTxFee2 connFrom) (fromAmount ptr1) (COIN env)
                                            [] 0 0 0 of
                                       (selected, outputsForUse, utxoAmount, fee1, fee2) \<Rightarrow>
                                         if \<not> selected
                                           then (INSIFFICIENT_FUNDS, ptr1\<lparr>state := priorState\<rparr>,
                                                 unlockFeeUtxos (feeUtxos ptr1)
                                                   (set_order i (ptr1\<lparr>state := priorState\<rparr>) s3))
                                         else
                                           (case sign_loop env connFrom outputsForUse of
                                              Inl err \<Rightarrow>
                                                (err, ptr1\<lparr>state := priorState\<rparr>,
                                                 unlockFeeUtxos (feeUtxos ptr1)
                                                        (set_order i (ptr1\<lparr>state := priorState\<rparr>) s3))
                                            | Inr signedOutputs \<Rightarrow>
                                                let ptr2 = ptr1\<lparr>usedCoins := signedOutputs\<rparr>
                                                in case lockCoins (currency connFrom) (usedCoins ptr2)
                                                          (m_utxosDict s3) of
                                                     (locked, dict) \<Rightarrow>
                                                       if \<not> locked
                                                         then (INSIFFICIENT_FUNDS,
                                                               ptr2\<lparr>state := priorState\<rparr>,
                                                               set_order i (ptr2\<lparr>state := priorState\<rparr>)
                                                                 (s3\<lparr>m_utxosDict := dict\<rparr>))
                                                       else (SUCCESS, ptr2,
                                                             set_order i ptr2
                                                               (s3\<lparr>m_utxosDict := dict\<rparr>)))))"

text \<open>
  \<open>App::acceptXBridgeTransaction\<close>: the returned error and the state afterwards. The
  calls \<open>updateConnector\<close> and \<open>sendAcceptingTransaction\<close> at the end act on the
  connector registry and the network, outside this state. \<open>clearUsedCoins\<close> of the
  missing header empties \<open>usedCoins\<close>.
\<close>

definition acceptXBridgeTransaction ::
  "'d::linorder double_ops \<Rightarrow> (('d UtxoEntry \<Rightarrow> 'd UtxoEntry \<Rightarrow> bool) \<Rightarrow> 'd UtxoEntry list \<Rightarrow> 'd UtxoEntry list)
     \<Rightarrow> 'd accept_env \<Rightarrow> uint256 \<Rightarrow> string \<Rightarrow> string \<Rightarrow> 'd app_state \<Rightarrow> Error \<times> 'd app_state" where
  "acceptXBridgeTransaction ops std_sort env i frm to s =
     (case m_transactions s i of
        None \<Rightarrow> (TRANSACTION_NOT_FOUND, s)
      | Some ptr0 \<Rightarrow>
          if stateRank env (state ptr0) \<ge> stateRank env trAccepting then (BAD_REQUEST, s)
          else
            let priorState = state ptr0;
                ptr = ptr0\<lparr>state := trAccepting\<rparr>;
                restored = set_order i (ptr\<lparr>state := priorState\<rparr>) s;
                coin = d_of_int ops (uint (COIN env))
            in case (connectorByCurrency env (fromCurrency ptr),
                     connectorByCurrency env (toCurrency ptr)) of
                 (None, _) \<Rightarrow> (NO_SESSION, restored)
               | (_, None) \<Rightarrow> (NO_SESSION, restored)
               | (Some connFrom, Some connTo) \<Rightarrow>
                   if isDustAmount connFrom (d_div ops (d_of_int ops (uint (fromAmount ptr))) coin)
                     then (DUST, restored)
                   else if isDustAmount connTo (d_div ops (d_of_int ops (uint (toAmount ptr))) coin)
                     then (DUST, restored)
                   else if availableBalance env < serviceNodeFee connTo
                     then (INSIFFICIENT_FUNDS_DX, restored)
                   else if length (sPubKey ptr) \<noteq> 33 then (NO_SERVICE_NODE, restored)
                   else if lookupSn (nodes env) (sPubKey ptr) = None then (NO_SERVICE_NODE, restored)
                   else if infoTooLarge env ptr then (INVALID_ONCHAIN_HISTORY, restored)
                   else
                     (case accept_select_utxos ops std_sort env connFrom i frm priorState ptr
                             (set_order i ptr s) of
                        (err, ptr1, s1) \<Rightarrow>
                          if err \<noteq> SUCCESS then (err, s1)
                          else
                                 (case (getBlockCount connFrom, getBlockCount connTo) of
                                    (Some fromBlockHeight, Some toBlockHeight) \<Rightarrow>
                                      if getBlockHash connFrom fromBlockHeight = None
                                         \<or> getBlockHash connTo toBlockHeight = None
                                        then (NO_SESSION,
                                              set_order i (ptr1\<lparr>state := priorState, usedCoins := []\<rparr>)
                                                (unlockFeeUtxos (feeUtxos ptr1)
                                                   (s1\<lparr>m_utxosDict :=
                                                        unlockCoins (currency connFrom) (usedCoins ptr1)
                                                          (m_utxosDict s1)\<rparr>)))
                                      else
                                        (SUCCESS,
                                         set_order i
                                           (ptr1\<lparr>fromAddr := frm, tx_from := toXAddr connFrom frm,
                                                 toAddr := to, tx_to := toXAddr connTo to,
                                                 role := CHR ''B'',
                                                 mPubKey := fst (newKeyPair connTo),
                                                 mPrivKey := snd (newKeyPair connTo)\<rparr>) s1)
                                  | _ \<Rightarrow>
                                      (NO_SESSION,
                                       set_order i (ptr1\<lparr>state := priorState, usedCoins := []\<rparr>)
                                         (unlockFeeUtxos (feeUtxos ptr1)
                                            (s1\<lparr>m_utxosDict :=
                                                 unlockCoins (currency connFrom) (usedCoins ptr1)
                                                   (m_utxosDict s1)\<rparr>))))))"


text \<open>
  Modelled from the spec: \<open>getUnspent(excluded)\<close> of a connector (sections 4.1 and 4.4
  of the specification; its code is not among the sources) gives the unspent outputs
  of the wallet without those of the exclusion set handed to it.
\<close>

definition honours_exclusion :: "'d WalletConnector \<Rightarrow> bool" where
  "honours_exclusion conn =
     (\<forall>excluded. \<forall>u \<in> set (getUnspent conn excluded). \<not> set_count excluded u)"

text \<open>
  A wallet connector whose wallet holds the outputs \<open>cc\<close> and \<open>bb\<close> and whose
  \<open>getBlockCount\<close> fails for LTC, surroundings in which every other step of the
  acceptance goes well, and a state in which order 1 is New, the output \<open>cc\<close> is locked
  for BTC and the output \<open>gg\<close> is locked for a fee.
\<close>

definition connector_fixture :: "string \<Rightarrow> real WalletConnector" where
  "connector_fixture cur =
     \<lparr>currency = cur, serviceNodeFee = 1, isDustAmount = (\<lambda>a. a < 1 / 1000),
      minTxFee1 = fee1_fixture, minTxFee2 = fee2_fixture,
      getUnspent = (\<lambda>excluded. filter (\<lambda>u. \<not> set_count excluded u)
                                   [utxo_fixture ''cc'' 5000, utxo_fixture ''bb'' 5000]),
      signMessage = (\<lambda>addr msg. (True, ''c2ln'')),
      toXAddr = (\<lambda>addr. replicate 20 7),
      getBlockCount = (if cur = ''LTC'' then None else Some 100),
      getBlockHash = (\<lambda>height. Some ''00ff''),
      newKeyPair = (replicate 33 2, replicate 32 3)\<rparr>"

definition accept_env_fixture :: "real accept_env" where
  "accept_env_fixture =
     \<lparr>connectorByCurrency = (\<lambda>cur. Some (connector_fixture cur)),
      stateRank = (\<lambda>st. case st of trExpired \<Rightarrow> - 1 | trNew \<Rightarrow> 0 | trOffline \<Rightarrow> 1
                          | trPending \<Rightarrow> 2 | trAccepting \<Rightarrow> 3 | _ \<Rightarrow> 4),
      COIN = 1000000, availableBalance = 10,
      nodes = registry_fixture\<lparr>getSn := (\<lambda>key. Some (node_fixture key [''BTC'', ''LTC'']))\<rparr>,
      infoTooLarge = (\<lambda>ptr. False),
      unspentP2PKH = Some [utxo_fixture ''gg'' 10, utxo_fixture ''ff'' 10],
      createFeeTransaction =
        (\<lambda>conn ptr feeOutputs.
           (feeOutputs \<noteq> [], set_insert_range Map.empty (take 1 feeOutputs), ''rawfee'')),
      toString = txId,
      DecodeBase64 = (\<lambda>text. (replicate 65 1, False))\<rparr>"

definition accept_state_fixture :: "real app_state" where
  "accept_state_fixture =
     init_state\<lparr>m_transactions := [1 \<mapsto> order_fixture\<lparr>sPubKey := replicate 33 2,
                                                     fromAmount := 2000000\<rparr>],
                m_utxosDict := [''BTC'' \<mapsto> [(''cc'', 0) \<mapsto> utxo_fixture ''cc'' 5000]],
                m_feeUtxos := [(''gg'', 0) \<mapsto> utxo_fixture ''gg'' 10]\<rparr>"

section \<open>Lock manager: helper lemmas\<close>

lemma any_locked_iff: "any_locked st us \<longleftrightarrow> (\<exists>u\<in>set us. utxo_key u \<in> dom st)"
  by (induction us) (auto simp: set_count_def)

lemma dom_set_insert: "dom (set_insert st u) = insert (utxo_key u) (dom st)"
  by (auto simp: set_insert_def set_count_def)

lemma dom_set_insert_range: "dom (set_insert_range st us) = dom st \<union> utxo_key ` set us"
  by (induction us arbitrary: st) (auto simp: dom_set_insert)

lemma set_insert_keeps: "k \<in> dom st \<Longrightarrow> set_insert st u k = st k"
  by (auto simp: set_insert_def set_count_def)

lemma set_insert_range_keeps: "k \<in> dom st \<Longrightarrow> set_insert_range st us k = st k"
proof (induction us arbitrary: st)
  case Nil
  then show ?case by simp
next
  case (Cons u us)
  have "k \<in> dom (set_insert st u)"
    using Cons.prems by (simp add: dom_set_insert)
  then have "set_insert_range (set_insert st u) us k = set_insert st u k"
    by (rule Cons.IH)
  then show ?case
    using Cons.prems by (simp add: set_insert_keeps)
qed

lemma dom_erase_all: "dom (erase_all st us) = dom st - utxo_key ` set us"
  by (induction us arbitrary: st) (auto simp: set_erase_def set_count_def)

lemma erase_all_other: "k \<notin> utxo_key ` set us \<Longrightarrow> erase_all st us k = st k"
  by (induction us arbitrary: st) (auto simp: set_erase_def set_count_def)

lemma locked_keys_lockCoins:
  "lockCoins token utxos dict = (True, dict') \<Longrightarrow>
     locked_keys dict' token = locked_keys dict token \<union> utxo_key ` set utxos"
proof (cases "dict token")
  case None
  assume "lockCoins token utxos dict = (True, dict')"
  with None have "dict' = dict(token \<mapsto> set_insert_range Map.empty utxos)"
    by (simp add: lockCoins_def)
  with None show ?thesis
    by (simp add: locked_keys_def dom_set_insert_range)
next
  case (Some st)
  assume "lockCoins token utxos dict = (True, dict')"
  with Some have "dict' = dict(token \<mapsto> set_insert_range st utxos)"
    by (simp add: lockCoins_def split: if_splits)
  with Some show ?thesis
    by (simp add: locked_keys_def dom_set_insert_range)
qed

lemma lockCoins_fails_iff:
  "fst (lockCoins token utxos dict) = False \<longleftrightarrow>
     (\<exists>u\<in>set utxos. utxo_key u \<in> locked_keys dict token)"
  by (auto simp: lockCoins_def locked_keys_def any_locked_iff split: option.splits)

section \<open>Lock manager: exclusive locking\<close>

text \<open>
  Claim C2. \<open>lockCoins token utxos\<close> returns false and leaves the lock map as it was
  when some entry of \<open>utxos\<close> is, by (txid, vout), already in the set locked for
  \<open>token\<close>. Otherwise it returns true, the set of \<open>token\<close> becomes the old one
  together with all the given entries (entries locked before stay as they were, the
  sets of other currencies are untouched), and from then on any request for
  \<open>token\<close> that shares an entry with \<open>utxos\<close> is refused.
\<close>

theorem lockCoins_exclusive:
  "lockCoins token utxos dict =
     (if \<exists>u\<in>set utxos. utxo_key u \<in> locked_keys dict token then (False, dict)
      else (True, snd (lockCoins token utxos dict)))
   \<and> ((\<forall>u\<in>set utxos. utxo_key u \<notin> locked_keys dict token) \<longrightarrow>
        locked_keys (snd (lockCoins token utxos dict)) token
          = locked_keys dict token \<union> utxo_key ` set utxos
        \<and> (\<forall>t. t \<noteq> token \<longrightarrow> snd (lockCoins token utxos dict) t = dict t)
        \<and> (\<forall>st k. dict token = Some st \<and> k \<in> dom st \<longrightarrow>
              (\<exists>st'. snd (lockCoins token utxos dict) token = Some st' \<and> st' k = st k))
        \<and> (\<forall>others. (\<exists>v\<in>set others. utxo_key v \<in> utxo_key ` set utxos) \<longrightarrow>
              lockCoins token others (snd (lockCoins token utxos dict))
                = (False, snd (lockCoins token utxos dict))))"
proof -
  let ?r = "lockCoins token utxos dict"
  have first: "?r = (if \<exists>u\<in>set utxos. utxo_key u \<in> locked_keys dict token then (False, dict)
      else (True, snd ?r))"
    by (auto simp: lockCoins_def locked_keys_def any_locked_iff split: option.splits)
  have second: "locked_keys (snd ?r) token = locked_keys dict token \<union> utxo_key ` set utxos
        \<and> (\<forall>t. t \<noteq> token \<longrightarrow> snd ?r t = dict t)
        \<and> (\<forall>st k. dict token = Some st \<and> k \<in> dom st \<longrightarrow>
              (\<exists>st'. snd ?r token = Some st' \<and> st' k = st k))
        \<and> (\<forall>others. (\<exists>v\<in>set others. utxo_key v \<in> utxo_key ` set utxos) \<longrightarrow>
              lockCoins token others (snd ?r) = (False, snd ?r))"
    if free: "\<forall>u\<in>set utxos. utxo_key u \<notin> locked_keys dict token"
  proof -
    from free first have ok: "?r = (True, snd ?r)"
      by auto
    then have keys: "locked_keys (snd ?r) token = locked_keys dict token \<union> utxo_key ` set utxos"
      by (rule locked_keys_lockCoins)
    have others: "\<forall>t. t \<noteq> token \<longrightarrow> snd ?r t = dict t"
      by (auto simp: lockCoins_def split: option.splits)
    have kept: "\<forall>st k. dict token = Some st \<and> k \<in> dom st \<longrightarrow>
              (\<exists>st'. snd ?r token = Some st' \<and> st' k = st k)"
      using free
      by (auto simp: lockCoins_def locked_keys_def any_locked_iff set_insert_range_keeps
               split: option.splits)
    have refused: "lockCoins token others (snd ?r) = (False, snd ?r)"
      if "\<exists>v\<in>set others. utxo_key v \<in> utxo_key ` set utxos" for others
    proof -
      from that keys have "\<exists>v\<in>set others. utxo_key v \<in> locked_keys (snd ?r) token"
        by auto
      then have "fst (lockCoins token others (snd ?r)) = False"
        by (simp only: lockCoins_fails_iff)
      then show ?thesis
        by (auto simp: lockCoins_def split: option.splits if_splits)
    qed
    from keys others kept refused show ?thesis
      by blast
  qed
  from first second show ?thesis
    by blast
qed

theorem lockCoins_exclusive_witness:
  "utxo_key (utxo_fixture ''aa'' (1::real)) \<notin> locked_keys Map.empty ''BTC''
   \<and> locked_keys (snd (lockCoins ''BTC'' [utxo_fixture ''aa'' (1::real)] Map.empty)) ''BTC''
        = {(''aa'', 0)}
   \<and> lockCoins ''BTC'' [utxo_fixture ''bb'' 3, utxo_fixture ''aa'' 2]
        (snd (lockCoins ''BTC'' [utxo_fixture ''aa'' (1::real)] Map.empty))
      = (False, snd (lockCoins ''BTC'' [utxo_fixture ''aa'' (1::real)] Map.empty))"
proof -
  have free: "\<forall>u\<in>set [utxo_fixture ''aa'' (1::real)]. utxo_key u \<notin> locked_keys Map.empty ''BTC''"
    by (simp add: locked_keys_def)
  have shared: "\<exists>v\<in>set [utxo_fixture ''bb'' (3::real), utxo_fixture ''aa'' 2].
      utxo_key v \<in> utxo_key ` set [utxo_fixture ''aa'' (1::real)]"
    by (simp add: utxo_key_def utxo_fixture_def)
  have keys: "locked_keys Map.empty ''BTC'' \<union> utxo_key ` set [utxo_fixture ''aa'' (1::real)]
      = {(''aa'', 0)}"
    by (simp add: locked_keys_def utxo_key_def utxo_fixture_def)
  have mine: "utxo_key (utxo_fixture ''aa'' (1::real)) \<notin> locked_keys Map.empty ''BTC''"
    by (simp add: locked_keys_def)
  from lockCoins_exclusive[where token = "''BTC''" and utxos = "[utxo_fixture ''aa'' (1::real)]"
      and dict = Map.empty] free shared keys mine
  show ?thesis
    by metis
qed

section \<open>Order store: live or historic, never both\<close>













section \<open>Moving an order to the history\<close>

lemma locked_keys_unlockCoins:
  "locked_keys (unlockCoins token utxos dict) token = locked_keys dict token - utxo_key ` set utxos"
  by (simp add: unlockCoins_def locked_keys_def dom_erase_all split: option.splits)

lemma unlockCoins_other: "t \<noteq> token \<Longrightarrow> unlockCoins token utxos dict t = dict t"
  by (simp add: unlockCoins_def split: option.splits)









section \<open>Expiry sweep: the transitions\<close>

lemma expiryStep_cases:
  "expiryStep pendingTTL TTL deadlineTTL currentTime tx =
     (if state tx = trNew \<and> txtime_age currentTime tx > pendingTTL
        then (tx\<lparr>state := trOffline\<rparr>, False)
      else if state tx = trPending \<and> txtime_age currentTime tx > pendingTTL
        then (tx\<lparr>state := trExpired\<rparr>, False)
      else if (state tx = trExpired \<or> state tx = trOffline) \<and> txtime_age currentTime tx < pendingTTL
        then (tx\<lparr>state := trPending\<rparr>, False)
      else if (state tx = trExpired \<or> state tx = trOffline) \<and> txtime_age currentTime tx > TTL
        then (tx, True)
      else if state tx = trPending \<and> creation_age currentTime tx > deadlineTTL
        then (tx, True)
      else (tx, False))"
  by (simp add: expiryStep_def txtime_age_def creation_age_def Let_def)

lemma sweep_entry:
  "m_transactions s i = Some tx \<Longrightarrow>
   m_transactions (checkAndEraseExpiredTransactions pendingTTL TTL deadlineTTL txlock currentTime s) i =
     (if \<not> txlock i then Some tx
      else if snd (expiryStep pendingTTL TTL deadlineTTL currentTime tx) then None
      else Some (fst (expiryStep pendingTTL TTL deadlineTTL currentTime tx)))"
  by (simp add: checkAndEraseExpiredTransactions_def split: prod.splits)

text \<open>
  Claim C5, as amended. With \<open>pendingTTL \<le> TTL\<close>, the sweep does this to an order
  of the live map, and nothing else. An order whose lock is not obtained is left as it
  is. Otherwise: a New order whose txtime-age exceeds \<open>pendingTTL\<close> becomes Offline;
  a Pending order whose txtime-age exceeds \<open>pendingTTL\<close> becomes Expired; an Expired
  or Offline order whose txtime-age is below \<open>pendingTTL\<close> becomes Pending; an
  Expired or Offline order whose txtime-age exceeds \<open>TTL\<close> is erased; a Pending
  order whose txtime-age does not exceed \<open>pendingTTL\<close> and whose creation-age
  exceeds \<open>deadlineTTL\<close> is erased; every other order is unchanged. No order is
  added and the history is untouched.
\<close>

theorem expiry_sweep_transitions:
  assumes "pendingTTL \<le> TTL" and "m_transactions s i = Some tx"
  shows
    "(\<not> txlock i \<longrightarrow>
        m_transactions (checkAndEraseExpiredTransactions pendingTTL TTL deadlineTTL txlock currentTime s) i
          = Some tx)
   \<and> (txlock i \<and> state tx = trNew \<and> txtime_age currentTime tx > pendingTTL \<longrightarrow>
        m_transactions (checkAndEraseExpiredTransactions pendingTTL TTL deadlineTTL txlock currentTime s) i
          = Some (tx\<lparr>state := trOffline\<rparr>))
   \<and> (txlock i \<and> state tx = trPending \<and> txtime_age currentTime tx > pendingTTL \<longrightarrow>
        m_transactions (checkAndEraseExpiredTransactions pendingTTL TTL deadlineTTL txlock currentTime s) i
          = Some (tx\<lparr>state := trExpired\<rparr>))
   \<and> (txlock i \<and> (state tx = trExpired \<or> state tx = trOffline)
         \<and> txtime_age currentTime tx < pendingTTL \<longrightarrow>
        m_transactions (checkAndEraseExpiredTransactions pendingTTL TTL deadlineTTL txlock currentTime s) i
          = Some (tx\<lparr>state := trPending\<rparr>))
   \<and> (txlock i \<and> (state tx = trExpired \<or> state tx = trOffline)
         \<and> txtime_age currentTime tx > TTL \<longrightarrow>
        m_transactions (checkAndEraseExpiredTransactions pendingTTL TTL deadlineTTL txlock currentTime s) i
          = None)
   \<and> (txlock i \<and> state tx = trPending \<and> txtime_age currentTime tx \<le> pendingTTL
         \<and> creation_age currentTime tx > deadlineTTL \<longrightarrow>
        m_transactions (checkAndEraseExpiredTransactions pendingTTL TTL deadlineTTL txlock currentTime s) i
          = None)
   \<and> (txlock i
         \<and> \<not> (state tx = trNew \<and> txtime_age currentTime tx > pendingTTL)
         \<and> \<not> (state tx = trPending
               \<and> (txtime_age currentTime tx > pendingTTL \<or> creation_age currentTime tx > deadlineTTL))
         \<and> \<not> ((state tx = trExpired \<or> state tx = trOffline)
               \<and> (txtime_age currentTime tx < pendingTTL \<or> txtime_age currentTime tx > TTL)) \<longrightarrow>
        m_transactions (checkAndEraseExpiredTransactions pendingTTL TTL deadlineTTL txlock currentTime s) i
          = Some tx)
   \<and> (\<forall>j. m_transactions s j = None \<longrightarrow>
        m_transactions (checkAndEraseExpiredTransactions pendingTTL TTL deadlineTTL txlock currentTime s) j
          = None)
   \<and> m_historicTransactions
        (checkAndEraseExpiredTransactions pendingTTL TTL deadlineTTL txlock currentTime s)
        = m_historicTransactions s"
proof -
  note e = sweep_entry[OF assms(2), of pendingTTL TTL deadlineTTL txlock currentTime]
  have rest: "(\<forall>j. m_transactions s j = None \<longrightarrow>
        m_transactions (checkAndEraseExpiredTransactions pendingTTL TTL deadlineTTL txlock currentTime s) j
          = None)
   \<and> m_historicTransactions
        (checkAndEraseExpiredTransactions pendingTTL TTL deadlineTTL txlock currentTime s)
        = m_historicTransactions s"
    by (simp add: checkAndEraseExpiredTransactions_def)
  show ?thesis
    unfolding e expiryStep_cases using assms(1) rest by auto
qed

text \<open>
  The claim as first stated has every Pending order older than \<open>deadlineTTL\<close>
  erased. A Pending order that is also stale takes the earlier branch: it becomes
  Expired and stays in the live map.
\<close>

theorem expiry_deadline_counterexample:
  "state (stale_pending_order :: real TransactionDescr) = trPending
   \<and> total_seconds (100000000000 - created (stale_pending_order :: real TransactionDescr)) > 86400
   \<and> m_transactions
        (checkAndEraseExpiredTransactions 60 3600 86400 (\<lambda>i. True) 100000000000
           (storeCreatedOrder (stale_pending_order :: real TransactionDescr) init_state)) 1
      = Some (stale_pending_order\<lparr>state := trExpired\<rparr>)"
  by (simp add: stale_pending_order_def order_fixture_def total_seconds_def expiryStep_def
        checkAndEraseExpiredTransactions_def storeCreatedOrder_def init_state_def)

theorem expiry_sweep_transitions_witness:
  "(60::int) \<le> 3600
   \<and> m_transactions (storeCreatedOrder (stale_pending_order :: real TransactionDescr) init_state) 1
       = Some stale_pending_order
   \<and> state (stale_pending_order :: real TransactionDescr) = trPending
   \<and> txtime_age 100000000000 (stale_pending_order :: real TransactionDescr) > 60
   \<and> m_transactions
        (checkAndEraseExpiredTransactions 60 3600 86400 (\<lambda>i. True) 100000000000
           (storeCreatedOrder (stale_pending_order :: real TransactionDescr) init_state)) 1
      = Some (stale_pending_order\<lparr>state := trExpired\<rparr>)"
proof -
  have le: "(60::int) \<le> 3600"
    by simp
  have live: "m_transactions (storeCreatedOrder (stale_pending_order :: real TransactionDescr) init_state) 1
       = Some stale_pending_order"
    by (simp add: storeCreatedOrder_def stale_pending_order_def order_fixture_def)
  have st: "state (stale_pending_order :: real TransactionDescr) = trPending"
    by (simp add: stale_pending_order_def)
  have age: "txtime_age 100000000000 (stale_pending_order :: real TransactionDescr) > 60"
    by (simp add: txtime_age_def total_seconds_def stale_pending_order_def)
  from expiry_sweep_transitions[OF le live, where txlock = "\<lambda>i. True"
      and currentTime = 100000000000 and deadlineTTL = 86400] st age le live
  show ?thesis
    by simp
qed

section \<open>Service-node selection: the nodes returned\<close>

lemma services_loop_eq:
  "distinct req \<Longrightarrow> length req \<le> c \<Longrightarrow>
   services_loop ws key c req lst =
     (if req \<noteq> [] \<and> c = length req \<and> set req \<subseteq> set ws then lst @ [key] else lst)"
proof (induction req arbitrary: c lst)
  case Nil
  then show ?case by simp
next
  case (Cons serv rest)
  from Cons.prems have d: "distinct rest" and c: "length rest \<le> c - 1" and c1: "1 \<le> c"
    by auto
  show ?case
  proof (cases "serv \<in> set ws")
    case False
    then show ?thesis by simp
  next
    case True
    show ?thesis
    proof (cases "c - 1 = 0")
      case True
      with c have "rest = []" by simp
      with True c1 \<open>serv \<in> set ws\<close> show ?thesis by simp
    next
      case False
      have "services_loop ws key c (serv # rest) lst = services_loop ws key (c - 1) rest lst"
        using False \<open>serv \<in> set ws\<close> by simp
      also have "\<dots> = (if rest \<noteq> [] \<and> c - 1 = length rest \<and> set rest \<subseteq> set ws
                        then lst @ [key] else lst)"
        by (rule Cons.IH[OF d c])
      also have "\<dots> = (if serv # rest \<noteq> [] \<and> c = length (serv # rest)
                          \<and> set (serv # rest) \<subseteq> set ws then lst @ [key] else lst)"
        using False c1 \<open>serv \<in> set ws\<close> by auto
      finally show ?thesis .
    qed
  qed
qed

lemma nodes_loop_eq:
  "distinct req \<Longrightarrow> req \<noteq> [] \<Longrightarrow>
   nodes_loop reg req ver notIn xs lst
     = lst @ map getSnodePubKey (filter (eligible reg req ver notIn) xs)"
proof (induction xs arbitrary: lst)
  case Nil
  then show ?case by simp
next
  case (Cons x xs)
  then show ?case
    by (auto simp: eligible_def services_loop_eq)
qed

lemma exchange_down_mset:
  "i < length xs \<Longrightarrow> mset (fst (exchange_down i g xs)) = mset xs"
proof (induction i arbitrary: g xs)
  case 0
  then show ?case by simp
next
  case (Suc i)
  let ?g = "minstd_next g"
  let ?j = "?g mod (i + 2)"
  let ?xs = "xs[Suc i := xs ! ?j, ?j := xs ! Suc i]"
  have "?j < i + 2"
    by simp
  with Suc.prems have j: "?j < length xs"
    by linarith
  have "mset ?xs = mset xs"
    using Suc.prems j by (simp add: mset_swap)
  moreover have "i < length ?xs"
    using Suc.prems by simp
  then have "mset (fst (exchange_down i ?g ?xs)) = mset ?xs"
    by (rule Suc.IH)
  ultimately show ?case
    by (simp add: Let_def)
qed

lemma exchange_down_1:
  "exchange_down (Suc 0) g xs =
     (xs[Suc 0 := xs ! (minstd_next g mod 2), minstd_next g mod 2 := xs ! Suc 0], minstd_next g)"
  by (simp add: Let_def numeral_2_eq_2)

lemma exchange_down_2:
  "exchange_down (Suc (Suc 0)) g xs =
     exchange_down (Suc 0) (minstd_next g)
       (xs[2 := xs ! (minstd_next g mod 3), minstd_next g mod 3 := xs ! 2])"
proof -
  have a: "Suc 0 + 2 = (3::nat)" and b: "Suc (Suc 0) = (2::nat)"
    by simp_all
  show ?thesis
    by (subst exchange_down.simps(2)[of "Suc 0"]) (simp only: Let_def a b)
qed

lemma minstd_draws:
  "minstd_rand0 0 = 1" "minstd_next 1 = 16807" "minstd_next (Suc 0) = 16807"
  "minstd_next 16807 = 282475249"
  "minstd_next 282475249 = 1622650073" "minstd_next 1622650073 = 984943658"
  by (simp_all add: minstd_rand0_def minstd_next_def)

lemma shuffle_minstd_mset: "mset (fst (shuffle_minstd g xs)) = mset xs"
proof (cases xs)
  case Nil
  then show ?thesis by (simp add: shuffle_minstd_def)
next
  case (Cons x rest)
  then have "length xs - 1 < length xs" by simp
  then show ?thesis
    unfolding shuffle_minstd_def by (rule exchange_down_mset)
qed

text \<open>
  Claim C9, as amended. For a non-empty set of requested services,
  \<open>findShuffledNodesWithService\<close> returns exactly the nodes of the registry that are
  running, have the requested protocol version, are not in the exclusion set, are found
  by \<open>getSn\<close> under their key (as it is or uncompressed) and advertise every
  requested service, each as often as the registry lists it. The list is what
  \<open>std::shuffle\<close> makes of these nodes, in registry order, from the state that the
  engine has at the call, and the engine's new state is kept for the next call. The
  engine is constructed from the seed 0 once: of two calls that a process makes first,
  with the same registry contents and arguments, the first returns the shuffle from
  the seeded engine and the second the shuffle from the state that the first left.
\<close>

theorem findShuffledNodesWithService_eligible_shuffled:
  assumes "\<And>g xs. mset (fst (shuffle g xs)) = mset xs"
    and "distinct requested_services" and "requested_services \<noteq> []"
  shows "set (fst (findShuffledNodesWithService shuffle reg requested_services version notIn rng))
           = getSnodePubKey ` {x \<in> set (snodes reg). eligible reg requested_services version notIn x}
       \<and> mset (fst (findShuffledNodesWithService shuffle reg requested_services version notIn rng))
           = mset (map getSnodePubKey
                    (filter (eligible reg requested_services version notIn) (snodes reg)))
       \<and> findShuffledNodesWithService shuffle reg requested_services version notIn rng
           = shuffle rng (map getSnodePubKey
                    (filter (eligible reg requested_services version notIn) (snodes reg)))
       \<and> findShuffledNodesWithService_calls shuffle default_random_engine
            [(reg, requested_services, version, notIn), (reg, requested_services, version, notIn)]
           = [fst (shuffle (default_random_engine 0)
                     (map getSnodePubKey
                        (filter (eligible reg requested_services version notIn) (snodes reg)))),
              fst (shuffle
                     (snd (shuffle (default_random_engine 0)
                             (map getSnodePubKey
                                (filter (eligible reg requested_services version notIn) (snodes reg)))))
                     (map getSnodePubKey
                        (filter (eligible reg requested_services version notIn) (snodes reg))))]"
proof -
  let ?c = "map getSnodePubKey (filter (eligible reg requested_services version notIn) (snodes reg))"
  have eq: "findShuffledNodesWithService shuffle reg requested_services version notIn g
      = shuffle g ?c" for g
    by (simp add: findShuffledNodesWithService_def nodes_loop_eq[OF assms(2,3)])
  have m: "mset (fst (shuffle rng ?c)) = mset ?c"
    by (rule assms(1))
  then have "set (fst (shuffle rng ?c)) = set ?c"
    by (rule mset_eq_setD)
  then have st: "set (fst (shuffle rng ?c))
      = getSnodePubKey ` {x \<in> set (snodes reg). eligible reg requested_services version notIn x}"
    by auto
  have calls: "findShuffledNodesWithService_calls shuffle default_random_engine
            [(reg, requested_services, version, notIn), (reg, requested_services, version, notIn)]
      = [fst (shuffle (default_random_engine 0) ?c),
         fst (shuffle (snd (shuffle (default_random_engine 0) ?c)) ?c)]"
    by (simp add: findShuffledNodesWithService_calls_def eq split: prod.splits)
  from eq[of rng] m st calls show ?thesis
    by simp
qed

lemma ex_candidates:
  "map getSnodePubKey (filter (eligible registry_fixture [''BTC'', ''LTC''] 50 {[9]}) (snodes registry_fixture))
    = [[2], [3]]"
  by (simp add: registry_fixture_def node_fixture_def eligible_def lookupSn_def)

theorem findShuffledNodesWithService_eligible_shuffled_witness:
  "mset (fst (shuffle_minstd 1 [[2], [3]])) = mset [[2], [3 :: 8 word]]
   \<and> distinct [''BTC'', ''LTC''] \<and> [''BTC'', ''LTC''] \<noteq> []
   \<and> findShuffledNodesWithService shuffle_minstd registry_fixture [''BTC'', ''LTC''] 50 {[9]}
        (minstd_rand0 0)
       = ([[2], [3]], 16807)
   \<and> findShuffledNodesWithService_calls shuffle_minstd minstd_rand0
        [(registry_fixture, [''BTC'', ''LTC''], 50, {[9]}),
         (registry_fixture, [''BTC'', ''LTC''], 50, {[9]})]
       = [[[2], [3]], [[2], [3]]]"
proof -
  have p: "mset (fst (shuffle_minstd g xs)) = mset xs" for g and xs :: "bytes list"
    by (rule shuffle_minstd_mset)
  have d: "distinct [''BTC'', ''LTC'']" and n: "[''BTC'', ''LTC''] \<noteq> []"
    by simp_all
  have s1: "shuffle_minstd 1 [[2], [3 :: 8 word]] = ([[2], [3]], 16807)"
    and s2: "shuffle_minstd 16807 [[2], [3 :: 8 word]] = ([[2], [3]], 282475249)"
    by (simp_all add: shuffle_minstd_def exchange_down_1 minstd_draws del: exchange_down.simps)
  from findShuffledNodesWithService_eligible_shuffled[of shuffle_minstd, OF p d n,
      where reg = registry_fixture and version = 50 and notIn = "{[9]}"
        and rng = "minstd_rand0 0" and default_random_engine = minstd_rand0]
  have "findShuffledNodesWithService shuffle_minstd registry_fixture [''BTC'', ''LTC''] 50 {[9]}
          (minstd_rand0 0) = ([[2], [3]], 16807)"
    and "findShuffledNodesWithService_calls shuffle_minstd minstd_rand0
          [(registry_fixture, [''BTC'', ''LTC''], 50, {[9]}),
           (registry_fixture, [''BTC'', ''LTC''], 50, {[9]})]
         = [[[2], [3]], [[2], [3]]]"
    by (simp_all only: ex_candidates minstd_draws s1 s2 fst_conv snd_conv)
  with p[of 1 "[[2], [3]]"] d n show ?thesis
    by simp
qed

text \<open>
  The claim as first stated has two calls with identical registry contents and
  arguments return the list in the same order. The first two calls of a process ask
  for the nodes with the service \<open>BTC\<close>, of which the registry has three: the engine
  is not seeded again for the second call, and the two lists differ.
\<close>

theorem findShuffledNodesWithService_order_counterexample:
  "findShuffledNodesWithService_calls shuffle_minstd minstd_rand0
     [(registry_fixture, [''BTC''], 50, {}), (registry_fixture, [''BTC''], 50, {})]
    = [[[2], [4], [3]], [[3], [2], [4]]]"
proof -
  have c: "nodes_loop registry_fixture [''BTC''] 50 {} (snodes registry_fixture) []
      = [[2], [3], [4]]"
    by (simp add: registry_fixture_def node_fixture_def lookupSn_def)
  have s1: "shuffle_minstd 1 [[2], [3], [4 :: 8 word]] = ([[2], [4], [3]], 282475249)"
    by (simp add: shuffle_minstd_def exchange_down_1 exchange_down_2 minstd_draws
          del: exchange_down.simps)
  have s2: "shuffle_minstd 282475249 [[2], [3], [4 :: 8 word]] = ([[3], [2], [4]], 984943658)"
    by (simp add: shuffle_minstd_def exchange_down_1 exchange_down_2 minstd_draws
          del: exchange_down.simps)
  from s1 have s1': "shuffle_minstd (Suc 0) [[2], [3], [4 :: 8 word]] = ([[2], [4], [3]], 282475249)"
    by simp
  show ?thesis
    by (simp add: findShuffledNodesWithService_calls_def findShuffledNodesWithService_def c
          minstd_draws s1' s2)
qed

section \<open>Rebroadcast of stuck orders: what one pass does to an order\<close>

lemma currencies_distinct: "distinct (currencies order) \<and> currencies order \<noteq> []"
  by (simp add: currencies_def)

lemma pickNewServicenode_cases:
  assumes perm: "\<And>g xs. mset (fst (shuffle g xs)) = mset xs"
  shows "(replacements reg ver order = [] \<and>
            fst (pickNewServicenode shuffle reg ver GetID order rng) = order)
       \<or> (\<exists>snode \<in> set (replacements reg ver order).
            fst (pickNewServicenode shuffle reg ver GetID order rng)
              = order\<lparr>excludedNodes := insert (sPubKey order) (excludedNodes order),
                      hubAddress := GetID snode, sPubKey := snode\<rparr>)"
proof -
  let ?notIn = "insert (sPubKey order) (excludedNodes order)"
  let ?r = "findShuffledNodesWithService shuffle reg (currencies order) ver ?notIn rng"
  have eq: "?r = shuffle rng (replacements reg ver order)"
    using currencies_distinct[of order]
    by (simp add: findShuffledNodesWithService_def nodes_loop_eq replacements_def)
  have m: "mset (fst ?r) = mset (replacements reg ver order)"
    unfolding eq by (rule perm)
  obtain l rng' where r: "?r = (l, rng')"
    by (cases ?r)
  show ?thesis
  proof (cases l)
    case Nil
    with m r have "replacements reg ver order = []"
      by simp
    moreover have "fst (pickNewServicenode shuffle reg ver GetID order rng) = order"
      using Nil r by (simp add: pickNewServicenode_def findNodeWithService_def Let_def)
    ultimately show ?thesis by simp
  next
    case (Cons snode rest)
    with m r have "snode \<in> set (replacements reg ver order)"
      by (metis fst_conv list.set_intros(1) mset_eq_setD)
    moreover have "fst (pickNewServicenode shuffle reg ver GetID order rng)
        = order\<lparr>excludedNodes := insert (sPubKey order) (excludedNodes order),
                hubAddress := GetID snode, sPubKey := snode\<rparr>"
      using Cons r by (simp add: pickNewServicenode_def findNodeWithService_def Let_def
                      assignServicenode_def excludeNode_def)
    ultimately show ?thesis by blast
  qed
qed

lemma replacements_new:
  "snode \<in> set (replacements reg ver order) \<Longrightarrow>
     snode \<noteq> sPubKey order \<and> snode \<notin> excludedNodes order
     \<and> (\<exists>x \<in> set (snodes reg). getSnodePubKey x = snode \<and> running x \<and> getXBridgeVersion x = ver
           \<and> lookupSn reg snode \<noteq> None
           \<and> fromCurrency order \<in> set (serviceList x) \<and> toCurrency order \<in> set (serviceList x))"
  by (auto simp: replacements_def eligible_def currencies_def split: if_splits)


lemma pickNewServicenode_reassigned:
  assumes "\<And>g xs. mset (fst (shuffle g xs)) = mset xs"
  shows "reassigned reg ver GetID order (fst (pickNewServicenode shuffle reg ver GetID order rng))"
  unfolding reassigned_def by (rule pickNewServicenode_cases[OF assms])

lemma replacements_updateTimestamp:
  "replacements reg ver (updateTimestamp now order) = replacements reg ver order"
  by (simp add: replacements_def updateTimestamp_def currencies_def)

text \<open>
  Claim C6, as amended. In one pass of the relay loop an order that is not local is
  skipped. For a local order in state New whose txtime is at least 15 seconds old, a
  service node is looked for among the nodes eligible for the order's two currencies,
  the current node and the order's exclusion set left out; when there is one it is
  assigned and the old node joins the exclusion set, when there is none the order keeps
  its node; then txtime is set to the clock's reading and the order-announce packet is
  sent (if the order has a session address and both of its addresses). For a local order
  in state Pending whose txtime is at least 240 seconds old, txtime is set and the
  packet sent in the same way, and a node is looked for, as above, only when the
  current node no longer advertises both of the order's currencies. Every other order
  is left as it is and nothing is sent for it. A replacement node is never the current
  node nor one of the exclusion set.
\<close>

theorem relayOrder_rebroadcast:
  assumes "\<And>g xs. mset (fst (shuffle g xs)) = mset xs"
  shows
    "(\<not> isLocal order \<longrightarrow>
        relayOrder shuffle reg ver GetID isLocal currentTime now order rng = (order, [], rng))
   \<and> (isLocal order \<and> state order = trNew \<and> total_seconds (currentTime - txtime order) \<ge> 15 \<longrightarrow>
        (\<exists>order'. reassigned reg ver GetID order order'
           \<and> fst (relayOrder shuffle reg ver GetID isLocal currentTime now order rng)
               = order'\<lparr>txtime := now\<rparr>
           \<and> fst (snd (relayOrder shuffle reg ver GetID isLocal currentTime now order rng))
               = sendPendingTransaction (order'\<lparr>txtime := now\<rparr>)))
   \<and> (isLocal order \<and> state order = trPending
         \<and> total_seconds (currentTime - txtime order) \<ge> 240
         \<and> hasNodeService reg (sPubKey order) (fromCurrency order)
         \<and> hasNodeService reg (sPubKey order) (toCurrency order) \<longrightarrow>
        relayOrder shuffle reg ver GetID isLocal currentTime now order rng
          = (order\<lparr>txtime := now\<rparr>, sendPendingTransaction (order\<lparr>txtime := now\<rparr>), rng))
   \<and> (isLocal order \<and> state order = trPending
         \<and> total_seconds (currentTime - txtime order) \<ge> 240
         \<and> \<not> (hasNodeService reg (sPubKey order) (fromCurrency order)
               \<and> hasNodeService reg (sPubKey order) (toCurrency order)) \<longrightarrow>
        (\<exists>order'. reassigned reg ver GetID (order\<lparr>txtime := now\<rparr>) order'
           \<and> fst (relayOrder shuffle reg ver GetID isLocal currentTime now order rng) = order'
           \<and> fst (snd (relayOrder shuffle reg ver GetID isLocal currentTime now order rng))
               = sendPendingTransaction order'))
   \<and> (\<not> (state order = trNew \<and> total_seconds (currentTime - txtime order) \<ge> 15)
         \<and> \<not> (state order = trPending \<and> total_seconds (currentTime - txtime order) \<ge> 240) \<longrightarrow>
        relayOrder shuffle reg ver GetID isLocal currentTime now order rng = (order, [], rng))
   \<and> (\<forall>snode \<in> set (replacements reg ver order).
        snode \<noteq> sPubKey order \<and> snode \<notin> excludedNodes order
        \<and> (\<exists>x \<in> set (snodes reg). getSnodePubKey x = snode \<and> running x
              \<and> getXBridgeVersion x = ver \<and> lookupSn reg snode \<noteq> None
              \<and> fromCurrency order \<in> set (serviceList x)
              \<and> toCurrency order \<in> set (serviceList x)))"
proof -
  let ?r = "relayOrder shuffle reg ver GetID isLocal currentTime now order rng"
  have a: "\<not> isLocal order \<longrightarrow> ?r = (order, [], rng)"
    by (simp add: relayOrder_def)
  have b: "\<exists>order'. reassigned reg ver GetID order order'
           \<and> fst ?r = order'\<lparr>txtime := now\<rparr>
           \<and> fst (snd ?r) = sendPendingTransaction (order'\<lparr>txtime := now\<rparr>)"
    if "isLocal order" "state order = trNew" "total_seconds (currentTime - txtime order) \<ge> 15"
  proof -
    let ?o1 = "fst (pickNewServicenode shuffle reg ver GetID order rng)"
    have "reassigned reg ver GetID order ?o1"
      by (rule pickNewServicenode_reassigned[OF assms])
    moreover have "fst ?r = ?o1\<lparr>txtime := now\<rparr>
        \<and> fst (snd ?r) = sendPendingTransaction (?o1\<lparr>txtime := now\<rparr>)"
      using that by (simp add: relayOrder_def Let_def updateTimestamp_def split: prod.splits)
    ultimately show ?thesis by blast
  qed
  have c: "?r = (order\<lparr>txtime := now\<rparr>, sendPendingTransaction (order\<lparr>txtime := now\<rparr>), rng)"
    if "isLocal order" "state order = trPending" "total_seconds (currentTime - txtime order) \<ge> 240"
       "hasNodeService reg (sPubKey order) (fromCurrency order)"
       "hasNodeService reg (sPubKey order) (toCurrency order)"
    using that by (simp add: relayOrder_def Let_def updateTimestamp_def)
  have d: "\<exists>order'. reassigned reg ver GetID (order\<lparr>txtime := now\<rparr>) order'
           \<and> fst ?r = order' \<and> fst (snd ?r) = sendPendingTransaction order'"
    if "isLocal order" "state order = trPending" "total_seconds (currentTime - txtime order) \<ge> 240"
       "\<not> (hasNodeService reg (sPubKey order) (fromCurrency order)
               \<and> hasNodeService reg (sPubKey order) (toCurrency order))"
  proof -
    let ?o1 = "fst (pickNewServicenode shuffle reg ver GetID (order\<lparr>txtime := now\<rparr>) rng)"
    have "reassigned reg ver GetID (order\<lparr>txtime := now\<rparr>) ?o1"
      by (rule pickNewServicenode_reassigned[OF assms])
    moreover have "fst ?r = ?o1 \<and> fst (snd ?r) = sendPendingTransaction ?o1"
      using that by (auto simp: relayOrder_def Let_def updateTimestamp_def split: prod.splits)
    ultimately show ?thesis by blast
  qed
  have e: "\<not> (state order = trNew \<and> total_seconds (currentTime - txtime order) \<ge> 15)
         \<and> \<not> (state order = trPending \<and> total_seconds (currentTime - txtime order) \<ge> 240) \<longrightarrow>
        ?r = (order, [], rng)"
    by (auto simp: relayOrder_def Let_def)
  have f: "\<forall>snode \<in> set (replacements reg ver order).
        snode \<noteq> sPubKey order \<and> snode \<notin> excludedNodes order
        \<and> (\<exists>x \<in> set (snodes reg). getSnodePubKey x = snode \<and> running x
              \<and> getXBridgeVersion x = ver \<and> lookupSn reg snode \<noteq> None
              \<and> fromCurrency order \<in> set (serviceList x)
              \<and> toCurrency order \<in> set (serviceList x))"
    using replacements_new by blast
  from a b c d e f show ?thesis
    by blast
qed

theorem relayOrder_rebroadcast_witness:
  "mset (fst (shuffle_fixture 0 [[2], [3 :: 8 word]])) = mset [[2], [3]]
   \<and> isLocal_fixture (stuck_order :: real TransactionDescr)
   \<and> state (stuck_order :: real TransactionDescr) = trNew
   \<and> total_seconds (20000000 - txtime (stuck_order :: real TransactionDescr)) \<ge> 15
   \<and> relayOrder shuffle_fixture registry_fixture 50 (\<lambda>key. key) isLocal_fixture
        20000000 20000123 ((stuck_order :: real TransactionDescr)\<lparr>toCurrency := ''LTC''\<rparr>) 0
      = (stuck_order\<lparr>toCurrency := ''LTC'', excludedNodes := {[3]}, hubAddress := [2],
                     sPubKey := [2], txtime := 20000123\<rparr>,
         [([2], stuck_order\<lparr>toCurrency := ''LTC'', excludedNodes := {[3]}, hubAddress := [2],
                     sPubKey := [2], txtime := 20000123\<rparr>)], 1)"
proof -
  let ?o = "(stuck_order :: real TransactionDescr)\<lparr>toCurrency := ''LTC''\<rparr>"
  have p: "mset (fst (shuffle_fixture g xs)) = mset xs" for g xs
    by (simp add: shuffle_fixture_def)
  have 1: "isLocal_fixture ?o" "isLocal_fixture (stuck_order :: real TransactionDescr)"
    by (simp_all add: isLocal_fixture_def stuck_order_def)
  have 2: "state ?o = trNew" "state (stuck_order :: real TransactionDescr) = trNew"
    by (simp_all add: stuck_order_def order_fixture_def)
  have 3: "total_seconds (20000000 - txtime ?o) \<ge> 15"
     "total_seconds (20000000 - txtime (stuck_order :: real TransactionDescr)) \<ge> 15"
    by (simp_all add: total_seconds_def stuck_order_def order_fixture_def)
  have r: "replacements registry_fixture 50 ?o = [[2]]"
    by (simp add: replacements_def registry_fixture_def node_fixture_def eligible_def lookupSn_def
          stuck_order_def order_fixture_def currencies_def)
  from relayOrder_rebroadcast[of shuffle_fixture, OF p, where isLocal = isLocal_fixture
      and order = ?o and currentTime = 20000000 and now = 20000123 and reg = registry_fixture
      and ver = 50 and GetID = "\<lambda>key. key" and rng = 0] 1 2 3
  obtain order' where o: "reassigned registry_fixture 50 (\<lambda>key. key) ?o order'"
      "fst (relayOrder shuffle_fixture registry_fixture 50 (\<lambda>key. key) isLocal_fixture
         20000000 20000123 ?o 0) = order'\<lparr>txtime := 20000123\<rparr>"
      "fst (snd (relayOrder shuffle_fixture registry_fixture 50 (\<lambda>key. key) isLocal_fixture
         20000000 20000123 ?o 0)) = sendPendingTransaction (order'\<lparr>txtime := 20000123\<rparr>)"
    by blast
  from o(1) r have o': "order' = ?o\<lparr>excludedNodes := {[3]}, hubAddress := [2], sPubKey := [2]\<rparr>"
    by (simp add: reassigned_def stuck_order_def order_fixture_def)
  have g: "snd (snd (relayOrder shuffle_fixture registry_fixture 50 (\<lambda>key. key) isLocal_fixture
         20000000 20000123 ?o 0)) = 1"
    using 1 2 3
    by (simp add: relayOrder_def Let_def pickNewServicenode_def findNodeWithService_def
          findShuffledNodesWithService_def shuffle_fixture_def split: prod.splits list.splits)
  have s: "sendPendingTransaction (order'\<lparr>txtime := 20000123\<rparr>) = [([2], order'\<lparr>txtime := 20000123\<rparr>)]"
    unfolding o' by (simp add: sendPendingTransaction_def stuck_order_def)
  from o(2,3) g s have "relayOrder shuffle_fixture registry_fixture 50 (\<lambda>key. key) isLocal_fixture
         20000000 20000123 ?o 0 = (order'\<lparr>txtime := 20000123\<rparr>, [([2], order'\<lparr>txtime := 20000123\<rparr>)], 1)"
    by (metis prod.collapse)
  with o' p 1 2 3 show ?thesis
    by simp
qed

text \<open>
  The claim as first stated has a new service node assigned to every stuck New order.
  When no other eligible node exists the order keeps the node it has: here node 3 is
  the only one that advertises both BTC and DGB.
\<close>

lemma stuck_find:
  "findNodeWithService shuffle_fixture registry_fixture 50
     (currencies (stuck_order :: real TransactionDescr))
     (insert (sPubKey (stuck_order :: real TransactionDescr))
        (excludedNodes (stuck_order :: real TransactionDescr))) 0 = (None, 1)"
  by (simp add: findNodeWithService_def findShuffledNodesWithService_def shuffle_fixture_def
        registry_fixture_def node_fixture_def lookupSn_def stuck_order_def order_fixture_def
        currencies_def)

theorem relayOrder_keeps_node_counterexample:
  "isLocal_fixture (stuck_order :: real TransactionDescr)
   \<and> state (stuck_order :: real TransactionDescr) = trNew
   \<and> total_seconds (20000000 - txtime (stuck_order :: real TransactionDescr)) \<ge> 15
   \<and> sPubKey (stuck_order :: real TransactionDescr) = [3]
   \<and> sPubKey (fst (relayOrder shuffle_fixture registry_fixture 50 (\<lambda>key. key) isLocal_fixture
                     20000000 20000123 (stuck_order :: real TransactionDescr) 0)) = [3]"
proof -
  have 1: "isLocal_fixture (stuck_order :: real TransactionDescr)"
    by (simp add: isLocal_fixture_def stuck_order_def)
  have 2: "state (stuck_order :: real TransactionDescr) = trNew"
    by (simp add: stuck_order_def order_fixture_def)
  have 3: "total_seconds (20000000 - txtime (stuck_order :: real TransactionDescr)) \<ge> 15"
    by (simp add: total_seconds_def stuck_order_def order_fixture_def)
  have 4: "sPubKey (stuck_order :: real TransactionDescr) = [3]"
    by (simp add: stuck_order_def)
  have "pickNewServicenode shuffle_fixture registry_fixture 50 (\<lambda>key. key)
          (stuck_order :: real TransactionDescr) 0 = (stuck_order, 1)"
    by (simp add: pickNewServicenode_def Let_def stuck_find)
  with 1 2 3 have "fst (relayOrder shuffle_fixture registry_fixture 50 (\<lambda>key. key) isLocal_fixture
      20000000 20000123 (stuck_order :: real TransactionDescr) 0) = stuck_order\<lparr>txtime := 20000123\<rparr>"
    by (simp add: relayOrder_def Let_def updateTimestamp_def)
  with 1 2 3 4 show ?thesis
    by simp
qed

section \<open>BCH signature hash: the FORKID digest\<close>

lemma sighash_all_forkid: "withForkId SIGHASH_ALL True = 0x41"
  by (simp add: withForkId_def SIGHASH_ALL_def SIGHASH_FORKID_def)

lemma replay_protected_type:
  "withForkValue 0x41 (0xff0000 OR (getForkValue 0x41 XOR 0xdead)) = 0xffdead41"
  by (simp add: withForkValue_def getForkValue_def)

lemma SignatureHash_0x41:
  "nIn < length (tx_vin txTo) \<Longrightarrow>
   SignatureHash ss scriptCode txTo nIn 0x41 amt
     = Some (GetHash ss (spec_preimage ss scriptCode txTo nIn amt 0xffdead41))"
  by (simp add: SignatureHash_def Let_def replay_protected_type hasForkId_def hasAnyoneCanPay_def
        getBaseType_def BaseSigHashType_SINGLE_def BaseSigHashType_NONE_def
        SIGHASH_FORKID_def SIGHASH_ANYONECANPAY_def SIGHASH_SINGLE_def SIGHASH_NONE_def
        SCRIPT_ENABLE_SIGHASH_FORKID_def SCRIPT_ENABLE_REPLAY_PROTECTION_def
        getRawSigHashType_def spec_preimage_def GetPrevoutHash_def GetSequenceHash_def
        GetOutputsHash_def)

text \<open>
  Claim C4. The connector signs with \<open>SigHashType(SIGHASH_ALL).withForkId()\<close>. For
  that type and an input that the transaction has, \<open>SignatureHash\<close> is the double
  SHA-256 of the concatenation of version, hash of the prevouts, hash of the sequence
  numbers, outpoint, script code, amount, sequence number, hash of the outputs, lock
  time and sighash type, where the type that is hashed carries the fork value xored
  with \<open>0xdead\<close> under the mask \<open>0xff0000\<close>, that is \<open>0xffdead41\<close>. The type has
  the fork id bit, and the signature that the connector produces for input 0 is the
  provider's signature of that digest followed by the single byte \<open>0x41\<close>.
\<close>

theorem SignatureHash_forkid_digest:
  assumes "nIn < length (tx_vin txTo)"
  shows "SignatureHash ss scriptCode txTo nIn (withForkId SIGHASH_ALL True) amt
           = Some (GetHash ss (spec_preimage ss scriptCode txTo nIn amt 0xffdead41))
       \<and> (0xffdead41 :: 32 word)
           = withForkValue (withForkId SIGHASH_ALL True)
               (0xff0000 OR (getForkValue (withForkId SIGHASH_ALL True) XOR 0xdead))
       \<and> hasForkId (withForkId SIGHASH_ALL True)
       \<and> (nIn = 0 \<longrightarrow>
            signInput ss sign mprivKey scriptCode txTo amt
              = (case sign mprivKey
                        (GetHash ss (spec_preimage ss scriptCode txTo 0 amt 0xffdead41)) of
                   None \<Rightarrow> None
                 | Some sig \<Rightarrow> Some (sig @ [0x41])))"
proof -
  have a: "SignatureHash ss scriptCode txTo nIn (withForkId SIGHASH_ALL True) amt
           = Some (GetHash ss (spec_preimage ss scriptCode txTo nIn amt 0xffdead41))"
    unfolding sighash_all_forkid by (rule SignatureHash_0x41[OF assms])
  have b: "(0xffdead41 :: 32 word)
           = withForkValue (withForkId SIGHASH_ALL True)
               (0xff0000 OR (getForkValue (withForkId SIGHASH_ALL True) XOR 0xdead))"
    unfolding sighash_all_forkid by (simp add: replay_protected_type)
  have c: "hasForkId (withForkId SIGHASH_ALL True)"
    unfolding sighash_all_forkid by (simp add: hasForkId_def SIGHASH_FORKID_def)
  have d: "signInput ss sign mprivKey scriptCode txTo amt
              = (case sign mprivKey
                        (GetHash ss (spec_preimage ss scriptCode txTo 0 amt 0xffdead41)) of
                   None \<Rightarrow> None
                 | Some sig \<Rightarrow> Some (sig @ [0x41]))" if "nIn = 0"
    using a that
    by (simp add: signInput_def Let_def sighash_all_forkid getRawSigHashType_def
          split: option.splits)
  from a b c d show ?thesis
    by blast
qed

theorem SignatureHash_forkid_digest_witness:
  "(0::nat) < length (tx_vin transaction_fixture)
   \<and> SignatureHash hash_writer_fixture [0x51] transaction_fixture 0 (withForkId SIGHASH_ALL True) 12000
       = Some 10
   \<and> signInput hash_writer_fixture (\<lambda>key h. Some (key @ [ucast h])) [7] [0x51]
        transaction_fixture 12000 = Some [7, 10, 0x41]"
proof -
  have l: "(0::nat) < length (tx_vin transaction_fixture)"
    by (simp add: transaction_fixture_def)
  have p: "GetHash hash_writer_fixture
      (spec_preimage hash_writer_fixture [0x51] transaction_fixture 0 12000 0xffdead41) = 10"
    by (simp add: hash_writer_fixture_def spec_preimage_def transaction_fixture_def)
  from SignatureHash_forkid_digest[OF l, where ss = hash_writer_fixture and scriptCode = "[0x51]"
      and amt = 12000 and sign = "\<lambda>key h. Some (key @ [ucast h])" and mprivKey = "[7]"] p l
  show ?thesis
    by simp
qed

section \<open>UTXO selection: the algorithm\<close>

lemma ideal_loop_found:
  "find (\<lambda>u. amount u \<ge> m \<and> amount u < up \<and> (address u = addr \<or> addr = [])) a = Some u \<Longrightarrow>
   fst (ideal_loop m up addr a gt lt) = Some u"
  by (induction a arbitrary: gt lt) (auto split: if_splits)

lemma ideal_loop_none:
  "find (\<lambda>u. amount u \<ge> m \<and> amount u < up \<and> (address u = addr \<or> addr = [])) a = None \<Longrightarrow>
   ideal_loop m up addr a gt lt
     = (None, gt @ filter (\<lambda>u. amount u \<ge> m) a, lt @ filter (\<lambda>u. amount u < m) a)"
proof (induction a arbitrary: gt lt)
  case Nil
  then show ?case by simp
next
  case (Cons u a)
  from Cons.prems
  have n: "\<not> (amount u \<ge> m \<and> amount u < up \<and> (address u = addr \<or> addr = []))"
    and r: "find (\<lambda>u. amount u \<ge> m \<and> amount u < up \<and> (address u = addr \<or> addr = [])) a = None"
    by (auto split: if_splits)
  show ?case
  proof (cases "amount u \<ge> m")
    case True
    with n Cons.IH[OF r] show ?thesis by auto
  next
    case False
    with n Cons.IH[OF r] show ?thesis by auto
  qed
qed

lemma accumulate_spec:
  "(accumulate ops f1 f2 m xs sel = []
      \<and> (\<forall>n. 1 \<le> n \<and> n \<le> length xs \<longrightarrow> runningAmount ops f1 f2 (sel @ take n xs) < m))
   \<or> (\<exists>n. 1 \<le> n \<and> n \<le> length xs \<and> accumulate ops f1 f2 m xs sel = sel @ take n xs
         \<and> runningAmount ops f1 f2 (sel @ take n xs) \<ge> m
         \<and> (\<forall>k. 1 \<le> k \<and> k < n \<longrightarrow> runningAmount ops f1 f2 (sel @ take k xs) < m))"
proof (induction xs arbitrary: sel)
  case Nil
  then show ?case by simp
next
  case (Cons u rest)
  show ?case
  proof (cases "runningAmount ops f1 f2 (sel @ [u]) \<ge> m")
    case True
    then have "1 \<le> (1::nat) \<and> 1 \<le> length (u # rest)
        \<and> accumulate ops f1 f2 m (u # rest) sel = sel @ take 1 (u # rest)
        \<and> runningAmount ops f1 f2 (sel @ take 1 (u # rest)) \<ge> m
        \<and> (\<forall>k. 1 \<le> k \<and> k < 1 \<longrightarrow> runningAmount ops f1 f2 (sel @ take k (u # rest)) < m)"
      by simp
    then show ?thesis by blast
  next
    case False
    then have lt1: "runningAmount ops f1 f2 (sel @ [u]) < m"
      by simp
    have acc: "accumulate ops f1 f2 m (u # rest) sel = accumulate ops f1 f2 m rest (sel @ [u])"
      using False by simp
    have tk: "sel @ take k (u # rest) = (sel @ [u]) @ take (k - 1) rest" if "1 \<le> k" for k
      using that by (cases k) simp_all
    from Cons.IH[of "sel @ [u]"] show ?thesis
    proof
      assume a: "accumulate ops f1 f2 m rest (sel @ [u]) = []
        \<and> (\<forall>n. 1 \<le> n \<and> n \<le> length rest \<longrightarrow>
              runningAmount ops f1 f2 ((sel @ [u]) @ take n rest) < m)"
      have "runningAmount ops f1 f2 (sel @ take n (u # rest)) < m"
        if n: "1 \<le> n \<and> n \<le> length (u # rest)" for n
      proof (cases "n = 1")
        case True
        with lt1 show ?thesis by simp
      next
        case False
        with n have "1 \<le> n - 1 \<and> n - 1 \<le> length rest" by auto
        with a have "runningAmount ops f1 f2 ((sel @ [u]) @ take (n - 1) rest) < m" by blast
        with tk[of n] n show ?thesis by simp
      qed
      with a acc show ?thesis by simp
    next
      assume "\<exists>n. 1 \<le> n \<and> n \<le> length rest
         \<and> accumulate ops f1 f2 m rest (sel @ [u]) = (sel @ [u]) @ take n rest
         \<and> runningAmount ops f1 f2 ((sel @ [u]) @ take n rest) \<ge> m
         \<and> (\<forall>k. 1 \<le> k \<and> k < n \<longrightarrow> runningAmount ops f1 f2 ((sel @ [u]) @ take k rest) < m)"
      then obtain n where n: "1 \<le> n" "n \<le> length rest"
         "accumulate ops f1 f2 m rest (sel @ [u]) = (sel @ [u]) @ take n rest"
         "runningAmount ops f1 f2 ((sel @ [u]) @ take n rest) \<ge> m"
         "\<forall>k. 1 \<le> k \<and> k < n \<longrightarrow> runningAmount ops f1 f2 ((sel @ [u]) @ take k rest) < m"
        by blast
      have below: "runningAmount ops f1 f2 (sel @ take k (u # rest)) < m"
        if k: "1 \<le> k \<and> k < Suc n" for k
      proof (cases "k = 1")
        case True
        with lt1 show ?thesis by simp
      next
        case False
        with k have "1 \<le> k - 1 \<and> k - 1 < n" by auto
        with n(5) have "runningAmount ops f1 f2 ((sel @ [u]) @ take (k - 1) rest) < m" by blast
        with tk[of k] k show ?thesis by simp
      qed
      have "1 \<le> Suc n \<and> Suc n \<le> length (u # rest)
         \<and> accumulate ops f1 f2 m (u # rest) sel = sel @ take (Suc n) (u # rest)
         \<and> runningAmount ops f1 f2 (sel @ take (Suc n) (u # rest)) \<ge> m
         \<and> (\<forall>k. 1 \<le> k \<and> k < Suc n \<longrightarrow> runningAmount ops f1 f2 (sel @ take k (u # rest)) < m)"
        using n acc below by simp
      then show ?thesis by blast
    qed
  qed
qed


lemma find_None_iff_no: "find P xs = None \<longleftrightarrow> \<not> (\<exists>x \<in> set xs. P x)"
  by (induction xs) auto

lemma find_Some_in: "find P xs = Some x \<Longrightarrow> x \<in> set xs \<and> P x"
  by (induction xs) (auto split: if_splits)

lemma singleton_of_mset: "mset xs = mset ys \<Longrightarrow> length ys = 1 \<Longrightarrow> xs = ys"
  by (cases ys) (auto simp: mset_single_iff_right)

lemma sorted_asc_first_least:
  "sorted_wrt (\<lambda>a b. f a \<le> f b) xs \<Longrightarrow> xs \<noteq> [] \<Longrightarrow> h \<in> set xs \<Longrightarrow> f (xs ! 0) \<le> (f h :: 'b::linorder)"
  by (cases xs) auto

lemma add_amounts_foldl:
  "foldl (\<lambda>r u. d_add ops r (amount u)) acc run = add_amounts ops acc run"
  by (induction run arbitrary: acc) simp_all

lemma runningAmount_net_total:
  "runningAmount ops minTxFee1 minTxFee2 sel = net_total ops minTxFee1 minTxFee2 sel"
  for minTxFee1 minTxFee2 :: "32 word \<Rightarrow> 32 word \<Rightarrow> 'd"
  by (simp add: runningAmount_def net_total_def Let_def add_amounts_foldl)

lemma add_amounts_exact:
  "add_amounts (rounded_ops (\<lambda>x. x)) acc run = acc + sum_list (map amount run)"
  by (induction run arbitrary: acc) (simp_all add: rounded_ops_def)

lemma net_total_exact:
  "net_total (rounded_ops (\<lambda>x. x)) fee1 fee2 run
     = sum_list (map amount run) - (fee1 (of_nat (length run)) 3 + fee2 1 1)"
  unfolding net_total_def add_amounts_exact by (simp add: rounded_ops_def)

lemma selUtxos_meets_spec:
  assumes conf: "sort_conforms std_sort"
  shows "selection_spec ops fee1 fee2 addr outputs A
           (selUtxos ops std_sort fee1 fee2 addr (std_sort amount_greater outputs) [] A)"
proof -
  let ?a = "std_sort amount_greater outputs"
  let ?nd = "need ops fee1 fee2 A"
  let ?up = "d_add ops ?nd (d_mul ops (d_add ops (fee1 1 3) (fee2 1 1)) (d_of_int ops 1000))"
  let ?P = "\<lambda>u. amount u \<ge> ?nd \<and> amount u < ?up \<and> (address u = addr \<or> addr = [])"
  let ?gt = "filter (\<lambda>u. amount u \<ge> ?nd) outputs"
  let ?lt = "filter (\<lambda>u. amount u < ?nd) outputs"
  let ?gt' = "filter (\<lambda>u. amount u \<ge> ?nd) ?a"
  let ?lt' = "filter (\<lambda>u. amount u < ?nd) ?a"
  let ?res = "selUtxos ops std_sort fee1 fee2 addr ?a [] A"
  have ma: "mset ?a = mset outputs"
    using conf by (simp add: sort_conforms_def)
  then have sa: "set ?a = set outputs"
    by (rule mset_eq_setD)
  have mgt: "mset ?gt' = mset ?gt" and mlt: "mset ?lt' = mset ?lt"
    using ma by (simp_all add: mset_filter)
  have lgt: "length ?gt' = length ?gt" and llt: "length ?lt' = length ?lt"
    using mgt mlt by (metis size_mset)+
  have Peq: "preferred ops fee1 fee2 addr A = ?P"
    by (rule ext) (simp add: preferred_def)
  have fa: "feeAmount ops fee1 fee2 A 1 3 = ?nd"
    by (simp add: feeAmount_def need_def)
  show ?thesis
  proof (cases "find ?P ?a")
    case (Some u)
    from find_Some_in[OF Some] sa have u: "u \<in> set outputs" "?P u"
      by auto
    obtain r gt lt where il: "ideal_loop ?nd ?up addr ?a [] [] = (r, gt, lt)"
      by (cases "ideal_loop ?nd ?up addr ?a [] []")
    with ideal_loop_found[OF Some, of "[]" "[]"] have "r = Some u"
      by simp
    with il have "?res = [u]"
      by (simp add: selUtxos_def Let_def fa)
    with u show ?thesis
      unfolding selection_spec_def Let_def Peq by auto
  next
    case None
    then have no: "\<not> (\<exists>u \<in> set outputs. ?P u)"
      using sa by (simp add: find_None_iff_no)
    have res: "?res =
        (if length ?gt' = 1 then [?gt' ! 0]
         else if length ?gt' > 1 then [std_sort amount_less ?gt' ! 0]
         else if length ?lt' < 2 then []
         else accumulate ops fee1 fee2 ?nd (std_sort amount_greater ?lt') [])"
      using ideal_loop_none[OF None, of "[]" "[]"]
      by (simp add: selUtxos_def Let_def fa)
    have goal: "(if length ?gt = 1 then ?res = ?gt
         else if length ?gt > 1
           then \<exists>g \<in> set ?gt. (\<forall>h \<in> set ?gt. amount g \<le> amount h) \<and> ?res = [g]
         else if length ?lt < 2 then ?res = []
         else \<exists>ls. mset ls = mset ?lt \<and> sorted_wrt (\<lambda>a b. amount a \<ge> amount b) ls
                \<and> ((?res = []
                      \<and> (\<forall>n. 1 \<le> n \<and> n \<le> length ls \<longrightarrow>
                            net_total ops fee1 fee2 (take n ls) < ?nd))
                    \<or> (\<exists>n. 1 \<le> n \<and> n \<le> length ls \<and> ?res = take n ls
                          \<and> net_total ops fee1 fee2 ?res \<ge> ?nd
                          \<and> (\<forall>k. 1 \<le> k \<and> k < n \<longrightarrow>
                                net_total ops fee1 fee2 (take k ls) < ?nd))))"
    proof (cases "length ?gt = 1")
      case True
      with lgt have l1: "length ?gt' = 1" by simp
      then have "?gt' = [?gt' ! 0]"
        by (cases ?gt') auto
      moreover have "?gt' = ?gt"
        by (rule singleton_of_mset[OF mgt True])
      ultimately have "?res = ?gt"
        using res l1 by simp
      with True show ?thesis by simp
    next
      case False
      note not1 = False
      show ?thesis
      proof (cases "length ?gt > 1")
        case True
        let ?s = "std_sort amount_less ?gt'"
        have ms: "mset ?s = mset ?gt'" and ss: "sorted_wrt (\<lambda>a b. amount a \<le> amount b) ?s"
          using conf by (simp_all add: sort_conforms_def)
        from ms mgt have sets: "set ?s = set ?gt"
          by (metis mset_eq_setD)
        from ms lgt True have ne: "?s \<noteq> []"
          by (metis length_0_conv not_less_zero size_mset)
        then have in0: "?s ! 0 \<in> set ?gt"
          using sets by (metis length_greater_0_conv nth_mem)
        have least: "\<forall>h \<in> set ?gt. amount (?s ! 0) \<le> amount h"
          using sorted_asc_first_least[OF ss ne] sets by blast
        have "?res = [?s ! 0]"
          using res lgt True by simp
        with in0 least not1 True show ?thesis by auto
      next
        case False
        with not1 have g0: "length ?gt = 0" by linarith
        show ?thesis
        proof (cases "length ?lt < 2")
          case True
          with res lgt llt g0 have "?res = []" by simp
          with g0 True show ?thesis by simp
        next
          case False
          let ?ls = "std_sort amount_greater ?lt'"
          have mls: "mset ?ls = mset ?lt"
            using conf mlt by (simp add: sort_conforms_def)
          have sls: "sorted_wrt (\<lambda>a b. amount a \<ge> amount b) ?ls"
            using conf by (simp add: sort_conforms_def)
          have r: "?res = accumulate ops fee1 fee2 ?nd ?ls []"
            using res lgt llt g0 False by simp
          from accumulate_spec[of ops fee1 fee2 ?nd ?ls "[]", unfolded runningAmount_net_total] r
          have "(?res = []
                  \<and> (\<forall>n. 1 \<le> n \<and> n \<le> length ?ls \<longrightarrow>
                        net_total ops fee1 fee2 (take n ?ls) < ?nd))
                \<or> (\<exists>n. 1 \<le> n \<and> n \<le> length ?ls \<and> ?res = take n ?ls
                      \<and> net_total ops fee1 fee2 ?res \<ge> ?nd
                      \<and> (\<forall>k. 1 \<le> k \<and> k < n \<longrightarrow>
                            net_total ops fee1 fee2 (take k ?ls) < ?nd))"
            by auto
          with mls sls have "\<exists>ls. mset ls = mset ?lt \<and> sorted_wrt (\<lambda>a b. amount a \<ge> amount b) ls
                \<and> ((?res = []
                      \<and> (\<forall>n. 1 \<le> n \<and> n \<le> length ls \<longrightarrow>
                            net_total ops fee1 fee2 (take n ls) < ?nd))
                    \<or> (\<exists>n. 1 \<le> n \<and> n \<le> length ls \<and> ?res = take n ls
                          \<and> net_total ops fee1 fee2 ?res \<ge> ?nd
                          \<and> (\<forall>k. 1 \<le> k \<and> k < n \<longrightarrow>
                                net_total ops fee1 fee2 (take k ls) < ?nd)))"
            by blast
          with g0 False show ?thesis by simp
        qed
      qed
    qed
    have nf: "(\<exists>u \<in> set outputs. preferred ops fee1 fee2 addr A u) = False"
      using no Peq by simp
    show ?thesis
      unfolding selection_spec_def Let_def nf if_False by (rule goal)
  qed
qed


text \<open>
  Claim C3. Whatever the arithmetic of \<open>double\<close> and whatever order \<open>std::sort\<close>
  gives to entries of equal amount, the entries that \<open>selectUtxos\<close> returns are a
  selection of the specified algorithm for the amount \<open>requiredAmount /
  coinDenomination\<close>: with \<open>need\<close> the amount plus \<open>fee1(1,3)\<close> plus
  \<open>fee2(1,1)\<close>, a single preferred candidate if there is one (amount from \<open>need\<close>
  up to, not including, \<open>need\<close> plus 1000 times the two fees, and the given address
  if one was given); otherwise, with \<open>gt\<close> the candidates of at least \<open>need\<close> and
  \<open>lt\<close> those below, the one entry of \<open>gt\<close>, or a smallest entry of \<open>gt\<close> when
  there are several, or nothing when \<open>gt\<close> is empty and \<open>lt\<close> has fewer than two
  entries, or else the shortest run of \<open>lt\<close> in descending order of amount whose
  running total, net of the fees recomputed for that many inputs, reaches \<open>need\<close>,
  and nothing when no run does. The function returns false exactly when nothing is
  selected. The running total of a run of \<open>n\<close> entries is, in exact arithmetic, the sum
  of their amounts less \<open>fee1(n,3) + fee2(1,1)\<close>.
\<close>

theorem selectUtxos_follows_algorithm:
  fixes minTxFee1 minTxFee2 :: "32 word \<Rightarrow> 32 word \<Rightarrow> 'd::linorder"
  assumes "sort_conforms std_sort"
  shows "selection_spec ops minTxFee1 minTxFee2 addr outputs
           (d_div ops (d_of_int ops (uint requiredAmount)) (d_of_int ops (sint coinDenomination)))
           (fst (snd (selectUtxos ops std_sort addr outputs minTxFee1 minTxFee2 requiredAmount
                        coinDenomination [] utxoAmount0 fee1_0 fee2_0)))
       \<and> fst (selectUtxos ops std_sort addr outputs minTxFee1 minTxFee2 requiredAmount
                 coinDenomination [] utxoAmount0 fee1_0 fee2_0)
           = (fst (snd (selectUtxos ops std_sort addr outputs minTxFee1 minTxFee2 requiredAmount
                          coinDenomination [] utxoAmount0 fee1_0 fee2_0)) \<noteq> [])
       \<and> net_total (rounded_ops (\<lambda>x. x)) fee1 fee2 run
           = sum_list (map amount run) - (fee1 (of_nat (length run)) 3 + fee2 1 1)"
proof -
  let ?A = "d_div ops (d_of_int ops (uint requiredAmount)) (d_of_int ops (sint coinDenomination))"
  let ?sel = "selUtxos ops std_sort minTxFee1 minTxFee2 addr (std_sort amount_greater outputs) [] ?A"
  have out: "fst (snd (selectUtxos ops std_sort addr outputs minTxFee1 minTxFee2 requiredAmount
                        coinDenomination [] utxoAmount0 fee1_0 fee2_0)) = ?sel"
    by (simp add: selectUtxos_def Let_def)
  have flag: "fst (selectUtxos ops std_sort addr outputs minTxFee1 minTxFee2 requiredAmount
                 coinDenomination [] utxoAmount0 fee1_0 fee2_0) = (?sel \<noteq> [])"
    by (simp add: selectUtxos_def Let_def)
  from selUtxos_meets_spec[OF assms, of ops minTxFee1 minTxFee2 addr outputs ?A] out flag
  show ?thesis
    by (simp add: net_total_exact)
qed

lemma mset_insert_by: "mset (insert_by cmp x ys) = add_mset x (mset ys)"
  by (induction ys) auto

lemma mset_sort_fixture: "mset (sort_fixture cmp xs) = mset xs"
  by (induction xs) (auto simp: sort_fixture_def mset_insert_by)

lemma set_insert_by: "set (insert_by cmp x ys) = insert x (set ys)"
  by (induction ys) auto

lemma sorted_insert_greater:
  "sorted_wrt (\<lambda>a b. amount a \<ge> amount b) ys \<Longrightarrow>
   sorted_wrt (\<lambda>a b. amount a \<ge> (amount b :: 'd::linorder)) (insert_by amount_greater x ys)"
  by (induction ys) (auto simp: set_insert_by amount_greater_def)

lemma sorted_insert_less:
  "sorted_wrt (\<lambda>a b. amount a \<le> amount b) ys \<Longrightarrow>
   sorted_wrt (\<lambda>a b. amount a \<le> (amount b :: 'd::linorder)) (insert_by amount_less x ys)"
  by (induction ys) (auto simp: set_insert_by amount_less_def)

lemma sort_fixture_conforms: "sort_conforms sort_fixture"
proof -
  have g: "sorted_wrt (\<lambda>a b. amount a \<ge> (amount b :: 'a::linorder)) (sort_fixture amount_greater xs)" for xs
    by (induction xs) (auto simp: sort_fixture_def sorted_insert_greater)
  have l: "sorted_wrt (\<lambda>a b. amount a \<le> (amount b :: 'a::linorder)) (sort_fixture amount_less xs)" for xs
    by (induction xs) (auto simp: sort_fixture_def sorted_insert_less)
  show ?thesis
    unfolding sort_conforms_def using g l by (simp add: mset_sort_fixture)
qed

lemma fixture_selection:
  "selectUtxos (rounded_ops (\<lambda>x. x)) sort_fixture []
      [utxo_fixture ''aa'' 3, utxo_fixture ''bb'' 6, utxo_fixture ''cc'' 5]
      fee1_fixture fee2_fixture 3000000 1000000 [] 0 0 0
    = (True, [utxo_fixture ''bb'' 6, utxo_fixture ''cc'' 5, utxo_fixture ''aa'' 3],
       14000000, 6000000, 0)"
  by (simp add: selectUtxos_def selUtxos_def Let_def sort_fixture_def amount_greater_def
        amount_less_def utxo_fixture_def rounded_ops_def feeAmount_def fee1_fixture_def
        fee2_fixture_def runningAmount_def trunc_def)


theorem selectUtxos_follows_algorithm_witness:
  "sort_conforms (sort_fixture :: (real UtxoEntry \<Rightarrow> real UtxoEntry \<Rightarrow> bool) \<Rightarrow> _)
   \<and> selectUtxos (rounded_ops (\<lambda>x. x)) sort_fixture []
        [utxo_fixture ''aa'' 3, utxo_fixture ''bb'' 6, utxo_fixture ''cc'' 5]
        fee1_fixture fee2_fixture 3000000 1000000 [] 0 0 0
      = (True, [utxo_fixture ''bb'' 6, utxo_fixture ''cc'' 5, utxo_fixture ''aa'' 3],
         14000000, 6000000, 0)
   \<and> selection_spec (rounded_ops (\<lambda>x. x)) fee1_fixture fee2_fixture []
        [utxo_fixture ''aa'' 3, utxo_fixture ''bb'' 6, utxo_fixture ''cc'' 5] 3
        [utxo_fixture ''bb'' 6, utxo_fixture ''cc'' 5, utxo_fixture ''aa'' 3]"
proof -
  have A: "d_div (rounded_ops (\<lambda>x. x)) (d_of_int (rounded_ops (\<lambda>x. x)) (uint (3000000 :: 64 word)))
             (d_of_int (rounded_ops (\<lambda>x. x)) (sint (1000000 :: 64 word))) = 3"
    by (simp add: rounded_ops_def)
  from selectUtxos_follows_algorithm[OF sort_fixture_conforms,
      where ops = "rounded_ops (\<lambda>x. x)" and ?minTxFee1.0 = fee1_fixture
        and ?minTxFee2.0 = fee2_fixture
        and addr = "[]" and requiredAmount = 3000000 and coinDenomination = 1000000
        and outputs = "[utxo_fixture ''aa'' 3, utxo_fixture ''bb'' 6, utxo_fixture ''cc'' 5]"
        and ?utxoAmount0.0 = 0 and ?fee1_0.0 = 0 and ?fee2_0.0 = 0]
  have "selection_spec (rounded_ops (\<lambda>x. x)) fee1_fixture fee2_fixture []
        [utxo_fixture ''aa'' 3, utxo_fixture ''bb'' 6, utxo_fixture ''cc'' 5] 3
        [utxo_fixture ''bb'' 6, utxo_fixture ''cc'' 5, utxo_fixture ''aa'' 3]"
    unfolding fixture_selection A by simp
  with sort_fixture_conforms fixture_selection show ?thesis
    by blast
qed

section \<open>Amounts and coin values: the round trip\<close>

lemma standard_roundingD:
  "standard_rounding rnd \<Longrightarrow> 1 / 2 ^ 64 \<le> x \<Longrightarrow> x \<le> 2 ^ 64 \<Longrightarrow> \<bar>rnd x - x\<bar> \<le> x / 2 ^ 53"
proof -
  assume s: "standard_rounding rnd" and l: "1 / 2 ^ 64 \<le> x" and h: "x \<le> 2 ^ 64"
  from l have "0 \<le> x"
    by (smt (verit) divide_nonneg_nonneg zero_le_power)
  with s l h show ?thesis
    unfolding standard_rounding_def by (metis abs_of_nonneg)
qed

lemma roundtrip_real:
  assumes s: "standard_rounding rnd"
    and N1: "1 \<le> N" and C10: "10 \<le> C" and NC: "N * C \<le> 2 ^ 53"
  shows "rnd (rnd (rnd (rnd N / rnd C) * rnd C) + 1 / 2) \<in> {N ..< N + 1}
       \<and> 0 < rnd (rnd (rnd N / rnd C) * rnd C)"
proof -
  define u :: real where "u = 1 / 2 ^ 53"
  define e where "e = N * u"
  have u: "0 < u" "u \<le> 1 / 1000"
    by (simp_all add: u_def)
  have p: "(2::real) ^ 53 = 9007199254740992" "(2::real) ^ 54 = 18014398509481984"
    "(2::real) ^ 64 = 18446744073709551616"
    by simp_all
  have "N * 10 \<le> N * C"
    using N1 C10 by (intro mult_left_mono) auto
  with NC have N: "N \<le> 2 ^ 53 / 10"
    by simp
  then have e: "e \<le> 1 / 10"
    by (simp add: e_def u_def)
  have e0: "u \<le> e"
    using N1 u by (simp add: e_def)
  have "C * 1 \<le> C * N"
    using N1 C10 by (intro mult_left_mono) auto
  with NC have C: "C \<le> 2 ^ 53"
    by (simp add: mult.commute)
  note r = standard_roundingD[OF s]
  \<comment> \<open>the amount as a double\<close>
  have "\<bar>rnd N - N\<bar> \<le> N / 2 ^ 53"
    using N1 N by (intro r) auto
  then have a: "\<bar>rnd N - N\<bar> \<le> e"
    by (simp add: e_def u_def)
  \<comment> \<open>the scale as a double\<close>
  have "\<bar>rnd C - C\<bar> \<le> C / 2 ^ 53"
    using C10 C by (intro r) auto
  then have c: "\<bar>rnd C - C\<bar> \<le> C * u"
    by (simp add: u_def)
  have "C * u \<le> C * (1 / 1000)"
    using u C10 by (intro mult_left_mono) auto
  with c C10 have cpos: "9 \<le> rnd C"
    by linarith
  have "C * u \<le> 2 ^ 53 * u"
    using C u by (intro mult_right_mono) auto
  then have "C * u \<le> 1"
    by (simp add: u_def)
  with c C have chi: "rnd C \<le> 2 ^ 54"
    unfolding p by linarith
  \<comment> \<open>the quotient\<close>
  define x1 where "x1 = rnd N / rnd C"
  from a N1 e have alo: "9 / 10 \<le> rnd N"
    by linarith
  from a N e have ahi: "rnd N \<le> 2 ^ 53"
    unfolding p by linarith
  have x1lo: "1 / 2 ^ 64 \<le> x1"
  proof -
    have "1 / 2 ^ 64 \<le> (9 / 10) / (2 ^ 54 :: real)"
      by simp
    also have "\<dots> \<le> rnd N / rnd C"
      using alo chi cpos by (intro frac_le) auto
    finally show ?thesis
      by (simp add: x1_def)
  qed
  have x1hi: "x1 \<le> 2 ^ 64"
  proof -
    have "rnd N / rnd C \<le> 2 ^ 53 / 9"
      using ahi cpos alo by (intro frac_le) auto
    also have "\<dots> \<le> (2 ^ 64 :: real)"
      by simp
    finally show ?thesis
      by (simp add: x1_def)
  qed
  have q: "\<bar>rnd x1 - x1\<bar> \<le> x1 / 2 ^ 53"
    by (rule r[OF x1lo x1hi])
  \<comment> \<open>the product: the scale cancels\<close>
  define x2 where "x2 = rnd x1 * rnd C"
  have "x2 - rnd N = (rnd x1 - x1) * rnd C"
    using cpos by (simp add: x2_def x1_def field_simps)
  then have "\<bar>x2 - rnd N\<bar> = \<bar>rnd x1 - x1\<bar> * rnd C"
    using cpos by (simp add: abs_mult)
  also have "\<dots> \<le> (x1 / 2 ^ 53) * rnd C"
    using q cpos by (intro mult_right_mono) auto
  also have "\<dots> = rnd N * u"
    using cpos by (simp add: x1_def u_def)
  finally have x2a: "\<bar>x2 - rnd N\<bar> \<le> rnd N * u" .
  have au: "rnd N * u \<le> e + e / 1000"
  proof -
    have "rnd N * u \<le> (N + e) * u"
      using a u by (intro mult_right_mono) auto
    also have "\<dots> = e + e * u"
      by (simp add: e_def algebra_simps)
    also have "e * u \<le> e * (1 / 1000)"
      using u e0 by (intro mult_left_mono) auto
    finally show ?thesis
      by simp
  qed
  from x2a au a e N1 have x2lo: "1 / 2 ^ 64 \<le> x2"
    unfolding p by linarith
  from x2a au a e N have x2hi: "x2 \<le> 2 ^ 64"
    unfolding p by linarith
  have d: "\<bar>rnd x2 - x2\<bar> \<le> x2 / 2 ^ 53"
    by (rule r[OF x2lo x2hi])
  have x2u: "x2 * u \<le> e + e / 100"
  proof -
    have "x2 \<le> N + 3 * e"
      using x2a au a e0 u by linarith
    then have "x2 * u \<le> (N + 3 * e) * u"
      using u by (intro mult_right_mono) auto
    also have "\<dots> = e + 3 * (e * u)"
      by (simp add: e_def algebra_simps)
    also have "e * u \<le> e * (1 / 1000)"
      using u e0 by (intro mult_left_mono) auto
    finally show ?thesis
      using u e0 by linarith
  qed
  from d have d': "\<bar>rnd x2 - x2\<bar> \<le> x2 * u"
    by (simp add: u_def)
  have dN: "\<bar>rnd x2 - N\<bar> \<le> 31 / 100"
    using d' x2u x2a au a e by linarith
  \<comment> \<open>adding one half\<close>
  define x3 where "x3 = rnd x2 + 1 / 2"
  from dN N1 have x3lo: "1 / 2 ^ 64 \<le> x3"
    unfolding p x3_def by linarith
  from dN N have x3hi: "x3 \<le> 2 ^ 64"
    unfolding p x3_def by linarith
  have t: "\<bar>rnd x3 - x3\<bar> \<le> x3 / 2 ^ 53"
    by (rule r[OF x3lo x3hi])
  have "x3 \<le> N + 1"
    using dN unfolding x3_def by linarith
  then have "x3 * u \<le> (N + 1) * u"
    using u by (intro mult_right_mono) auto
  also have "\<dots> = e + u"
    by (simp add: e_def algebra_simps)
  finally have x3u: "x3 * u \<le> 11 / 100"
    using e u by linarith
  from t have "\<bar>rnd x3 - x3\<bar> \<le> x3 * u"
    by (simp add: u_def)
  with x3u dN have "N \<le> rnd x3 \<and> rnd x3 < N + 1"
    unfolding x3_def by linarith
  moreover from dN N1 have "0 < rnd x2"
    by linarith
  ultimately show ?thesis
    by (simp add: x3_def x2_def x1_def)
qed


lemma trunc_minus_half:
  assumes "standard_rounding rnd"
  shows "trunc (rnd (0 - 1 / 2)) = 0"
proof -
  have "1 / 2 ^ 64 \<le> \<bar>- (1 / 2) :: real\<bar> \<and> \<bar>- (1 / 2) :: real\<bar> \<le> 2 ^ 64"
    by simp
  with assms have "\<bar>rnd (- (1 / 2)) - (- (1 / 2))\<bar> \<le> \<bar>- (1 / 2) :: real\<bar> / 2 ^ 53"
    unfolding standard_rounding_def by blast
  then have "\<bar>rnd (- (1 / 2)) + 1 / 2\<bar> \<le> 1 / 4"
    by simp
  then have "- 1 < rnd (- (1 / 2)) \<and> rnd (- (1 / 2)) < 0"
    by linarith
  then have "\<lceil>rnd (- (1 / 2))\<rceil> = 0 \<and> \<not> rnd (- (1 / 2)) \<ge> 0"
    by (simp add: ceiling_eq_iff)
  then show ?thesis
    by (simp add: trunc_def)
qed

text \<open>
  Claim C7. In double arithmetic, with a scale \<open>COIN\<close> of at least 10, every amount
  \<open>n\<close> with \<open>n * COIN \<le> 2^53\<close> comes back from
  \<open>xBridgeAmountFromReal (xBridgeValueFromAmount n)\<close>: the first function divides
  by \<open>COIN\<close>, the second multiplies by \<open>COIN\<close> and rounds half away from zero,
  adding \<open>0.5\<close> to a positive value and subtracting \<open>0.5\<close> from any other before
  the fraction is cut off (the second part of the statement shows this rounding in exact
  arithmetic). It holds for every rounding of the standard model.
\<close>

theorem amount_roundtrip:
  fixes COIN :: "64 word"
  assumes "standard_rounding rnd" and "10 \<le> uint COIN" and "uint n * uint COIN \<le> 2 ^ 53"
  shows "xBridgeAmountFromReal (rounded_ops rnd) COIN
           (xBridgeValueFromAmount (rounded_ops rnd) COIN n) = n
       \<and> xBridgeAmountFromReal (rounded_ops (\<lambda>x. x)) COIN val
           = word_of_int (if val * of_int (uint COIN) > 0
                          then \<lfloor>val * of_int (uint COIN) + 1 / 2\<rfloor>
                          else \<lceil>val * of_int (uint COIN) - 1 / 2\<rceil>)"
proof -
  let ?N = "real_of_int (uint n)" and ?C = "real_of_int (uint COIN)"
  let ?d = "rnd (rnd (rnd ?N / rnd ?C) * rnd ?C)"
  have r0: "rnd 0 = 0"
    using assms(1) by (simp add: standard_rounding_def)
  have unfolded: "xBridgeAmountFromReal (rounded_ops rnd) COIN
           (xBridgeValueFromAmount (rounded_ops rnd) COIN n)
        = word_of_int (trunc (if ?d > 0 then rnd (?d + 1 / 2) else rnd (?d - 1 / 2)))"
    by (simp add: xBridgeAmountFromReal_def xBridgeValueFromAmount_def rounded_ops_def Let_def r0)
  have first: "xBridgeAmountFromReal (rounded_ops rnd) COIN
           (xBridgeValueFromAmount (rounded_ops rnd) COIN n) = n"
  proof (cases "uint n = 0")
    case True
    then have "?d = 0"
      by (simp add: r0)
    with unfolded trunc_minus_half[OF assms(1)] True show ?thesis
      by (simp add: word_uint_eq_iff)
  next
    case False
    then have N1: "1 \<le> ?N"
      by (smt (verit) of_int_1_le_iff uint_ge_0)
    have C10: "10 \<le> ?C"
      using assms(2) by linarith
    have "real_of_int (uint n * uint COIN) \<le> real_of_int (2 ^ 53)"
      using assms(3) by (simp only: of_int_le_iff)
    then have NC: "?N * ?C \<le> 2 ^ 53"
      by simp
    from roundtrip_real[OF assms(1) N1 C10 NC]
    have t: "?N \<le> rnd (?d + 1 / 2)" "rnd (?d + 1 / 2) < ?N + 1" and dpos: "0 < ?d"
      by simp_all
    from t have "\<lfloor>rnd (?d + 1 / 2)\<rfloor> = uint n"
      by (simp add: floor_eq_iff)
    moreover from t N1 have "rnd (?d + 1 / 2) \<ge> 0"
      by linarith
    ultimately have "trunc (rnd (?d + 1 / 2)) = uint n"
      by (simp add: trunc_def)
    with unfolded dpos show ?thesis
      by simp
  qed
  have second: "xBridgeAmountFromReal (rounded_ops (\<lambda>x. x)) COIN val
           = word_of_int (if val * of_int (uint COIN) > 0
                          then \<lfloor>val * of_int (uint COIN) + 1 / 2\<rfloor>
                          else \<lceil>val * of_int (uint COIN) - 1 / 2\<rceil>)"
  proof (cases "val * of_int (uint COIN) > 0")
    case True
    then show ?thesis
      by (simp add: xBridgeAmountFromReal_def rounded_ops_def Let_def trunc_def)
  next
    case False
    then have "\<not> val * of_int (uint COIN) - 1 / 2 \<ge> 0"
      by linarith
    with False show ?thesis
      by (simp add: xBridgeAmountFromReal_def rounded_ops_def Let_def trunc_def)
  qed
  from first second show ?thesis
    by simp
qed

theorem amount_roundtrip_witness:
  "standard_rounding (\<lambda>x. x)
   \<and> 10 \<le> uint (1000000 :: 64 word)
   \<and> uint (123456789 :: 64 word) * uint (1000000 :: 64 word) \<le> 2 ^ 53
   \<and> xBridgeAmountFromReal (rounded_ops (\<lambda>x. x)) 1000000
        (xBridgeValueFromAmount (rounded_ops (\<lambda>x. x)) 1000000 123456789) = 123456789"
proof -
  have s: "standard_rounding (\<lambda>x. x)"
    by (simp add: standard_rounding_def)
  have c: "10 \<le> uint (1000000 :: 64 word)"
    by simp
  have b: "uint (123456789 :: 64 word) * uint (1000000 :: 64 word) \<le> 2 ^ 53"
    by simp
  from amount_roundtrip[OF s c b, THEN conjunct1] s c b show ?thesis
    by blast
qed

section \<open>Accepting an order: what a failure leaves behind\<close>

lemma getAllLockedUtxos_state:
  "m_transactions s' = m_transactions s \<and> m_feeUtxos s' = m_feeUtxos s
     \<and> (\<forall>t. locked_keys (m_utxosDict s') t = locked_keys (m_utxosDict s) t)"
  if "getAllLockedUtxos token s = (ex, s')"
proof (cases "m_utxosDict s token")
  case None
  with that have s': "s' = s\<lparr>m_utxosDict := (m_utxosDict s)(token \<mapsto> Map.empty)\<rparr>"
    by (auto simp: getAllLockedUtxos_def getLockedUtxos_def Let_def)
  have "locked_keys (m_utxosDict s') t = locked_keys (m_utxosDict s) t" for t
    using None by (cases "t = token") (simp_all add: s' locked_keys_def)
  then show ?thesis by (simp add: s')
next
  case (Some st)
  with that have "s' = s"
    by (auto simp: getAllLockedUtxos_def getLockedUtxos_def Let_def)
  then show ?thesis by simp
qed

lemma lockCoins_other:
  "lockCoins token utxos dict = (b, dict') \<Longrightarrow> t \<noteq> token \<Longrightarrow> dict' t = dict t"
  by (auto simp: lockCoins_def split: option.splits if_splits)

lemma lock_then_unlock:
  assumes "lockCoins token utxos dict = (True, dict')"
  shows "locked_keys (unlockCoins token utxos dict') t = locked_keys dict t"
proof (cases "t = token")
  case True
  have "\<not> (\<exists>u\<in>set utxos. utxo_key u \<in> locked_keys dict token)"
    using lockCoins_fails_iff[of token utxos dict] assms by simp
  then have "(locked_keys dict token \<union> utxo_key ` set utxos) - utxo_key ` set utxos
             = locked_keys dict token"
    by auto
  then show ?thesis
    using True by (simp add: locked_keys_unlockCoins locked_keys_lockCoins[OF assms])
next
  case False
  then show ?thesis
    using lockCoins_other[OF assms False]
    by (simp add: locked_keys_def unlockCoins_other)
qed

lemma getAllLockedUtxos_covers:
  assumes "getAllLockedUtxos token s = (ex, s')"
  shows "locked_keys (m_utxosDict s') token \<subseteq> dom ex"
proof (cases "m_utxosDict s token")
  case None
  with assms have "s' = s\<lparr>m_utxosDict := (m_utxosDict s)(token \<mapsto> Map.empty)\<rparr>"
    by (auto simp: getAllLockedUtxos_def getLockedUtxos_def Let_def)
  then show ?thesis
    by (simp add: locked_keys_def)
next
  case (Some st)
  with assms have "s' = s" and "ex = st ++ m_feeUtxos s"
    by (auto simp: getAllLockedUtxos_def getLockedUtxos_def Let_def)
  with Some show ?thesis
    by (auto simp: locked_keys_def)
qed

lemma sign_entry_key: "utxo_key (fst (sign_entry env conn entry)) = utxo_key entry"
  by (simp add: sign_entry_def utxo_key_def Let_def split: prod.splits)

lemma sign_loop_keys:
  "sign_loop env conn xs = Inr ys \<Longrightarrow> map utxo_key ys = map utxo_key xs"
proof (induction xs arbitrary: ys)
  case Nil
  then show ?case by simp
next
  case (Cons entry rest)
  obtain entry' err where se: "sign_entry env conn entry = (entry', err)"
    by (cases "sign_entry env conn entry")
  with Cons.prems obtain rest' where r: "sign_loop env conn rest = Inr rest'"
    and ys: "ys = entry' # rest'"
    by (auto split: if_splits sum.splits)
  from sign_entry_key[of env conn entry] se have "utxo_key entry' = utxo_key entry"
    by simp
  with Cons.IH[OF r] ys show ?case
    by simp
qed

lemma sign_loop_error: "sign_loop env conn xs = Inl e \<Longrightarrow> e \<noteq> SUCCESS"
proof (induction xs)
  case Nil
  then show ?case by simp
next
  case (Cons x xs)
  then show ?case
    by (auto split: prod.splits if_splits sum.splits)
qed

lemma selection_spec_subset:
  assumes "selection_spec ops fee1 fee2 addr candidates A result"
  shows "set result \<subseteq> set candidates"
proof -
  let ?gt = "filter (\<lambda>u. amount u \<ge> need ops fee1 fee2 A) candidates"
  let ?lt = "filter (\<lambda>u. amount u < need ops fee1 fee2 A) candidates"
  consider (pref) "\<exists>u \<in> set candidates. result = [u]"
    | (one) "result = ?gt"
    | (least) "\<exists>g \<in> set ?gt. result = [g]"
    | (none) "result = []"
    | (run) "\<exists>ls n. mset ls = mset ?lt \<and> result = take n ls"
    using assms unfolding selection_spec_def Let_def
    by (auto split: if_splits)
  then show ?thesis
  proof cases
    case pref
    then show ?thesis by auto
  next
    case one
    then show ?thesis by auto
  next
    case least
    then show ?thesis by auto
  next
    case none
    then show ?thesis by simp
  next
    case run
    then obtain ls n where m: "mset ls = mset ?lt" and r: "result = take n ls"
      by blast
    from m have "set ls = set ?lt"
      by (rule mset_eq_setD)
    with r show ?thesis
      using set_take_subset[of n ls] by auto
  qed
qed

lemma selectUtxos_subset:
  assumes "sort_conforms std_sort"
    and "selectUtxos ops std_sort addr outputs fee1 fee2 requiredAmount coinDenomination
           [] utxoAmount0 fee1_0 fee2_0 = (selected, outputsForUse, utxoAmount, f1, f2)"
  shows "set outputsForUse \<subseteq> set outputs"
proof -
  let ?A = "d_div ops (d_of_int ops (uint requiredAmount)) (d_of_int ops (sint coinDenomination))"
  from assms(2) have "outputsForUse
      = selUtxos ops std_sort fee1 fee2 addr (std_sort amount_greater outputs) [] ?A"
    by (auto simp: selectUtxos_def Let_def split: if_splits)
  with selUtxos_meets_spec[OF assms(1), of ops fee1 fee2 addr outputs ?A]
  show ?thesis
    by (simp add: selection_spec_subset)
qed

text \<open>
  The refusal of \<open>lockCoins\<close> does not happen after a selection from the outputs of a
  connector that leaves out the exclusion set: the exclusion set has every output
  locked for the currency.
\<close>

lemma lockCoins_after_selection:
  assumes conf: "sort_conforms std_sort"
    and hon: "honours_exclusion connFrom"
    and g: "getAllLockedUtxos (currency connFrom) s2 = (ex2, s3)"
    and sl: "selectUtxos ops std_sort frm (getUnspent connFrom ex2) fee1 fee2 requiredAmount
               coinDenomination [] 0 0 0 = (selected, outputsForUse, utxoAmount, f1, f2)"
    and sg: "sign_loop env connFrom outputsForUse = Inr signedOutputs"
  shows "fst (lockCoins (currency connFrom) signedOutputs (m_utxosDict s3))"
proof (rule ccontr)
  assume "\<not> fst (lockCoins (currency connFrom) signedOutputs (m_utxosDict s3))"
  then obtain u where u: "u \<in> set signedOutputs"
    and locked: "utxo_key u \<in> locked_keys (m_utxosDict s3) (currency connFrom)"
    using lockCoins_fails_iff[of "currency connFrom" signedOutputs "m_utxosDict s3"] by auto
  from u have "utxo_key u \<in> set (map utxo_key signedOutputs)"
    by simp
  then have "utxo_key u \<in> set (map utxo_key outputsForUse)"
    by (simp only: sign_loop_keys[OF sg])
  then obtain u0 where u0: "u0 \<in> set outputsForUse" and k: "utxo_key u0 = utxo_key u"
    by auto
  from selectUtxos_subset[OF conf sl] u0 have "u0 \<in> set (getUnspent connFrom ex2)"
    by blast
  with hon have "\<not> set_count ex2 u0"
    by (simp add: honours_exclusion_def)
  then have "utxo_key u \<notin> dom ex2"
    by (auto simp: set_count_def k)
  with getAllLockedUtxos_covers[OF g] locked show False
    by blast
qed

text \<open>
  What the block "Utxo selection" leaves behind. When it fails, the order is stored in
  its prior state, the coins locked for each currency are those locked before and every
  fee lock is one that was held before. When it succeeds, the locks that it took are
  those of the order's \<open>usedCoins\<close> and \<open>feeUtxos\<close>.
\<close>

lemma accept_select_utxos_cases:
  assumes conf: "sort_conforms std_sort"
    and hon: "honours_exclusion connFrom"
    and a: "accept_select_utxos ops std_sort env connFrom i frm priorState ptr s = (err, ptr', s')"
  shows "m_transactions s' i = Some ptr'
       \<and> (err \<noteq> SUCCESS \<longrightarrow>
            state ptr' = priorState
            \<and> (\<forall>t. locked_keys (m_utxosDict s') t = locked_keys (m_utxosDict s) t)
            \<and> (\<forall>k. m_feeUtxos s' k = None \<or> m_feeUtxos s' k = m_feeUtxos s k))
       \<and> (err = SUCCESS \<longrightarrow>
            (\<forall>t. locked_keys (unlockCoins (currency connFrom) (usedCoins ptr') (m_utxosDict s')) t
                  = locked_keys (m_utxosDict s) t)
            \<and> (\<forall>k. feeUtxos ptr' k = None \<longrightarrow> m_feeUtxos s' k = m_feeUtxos s k))"
proof (cases "unspentP2PKH env")
  case None
  with a show ?thesis
    by (auto simp: accept_select_utxos_def set_order_def)
next
  case (Some feeOutputs0)
  obtain ex s1 where g1: "getAllLockedUtxos (currency connFrom) s = (ex, s1)"
    by (cases "getAllLockedUtxos (currency connFrom) s")
  note k1 = getAllLockedUtxos_state[OF g1]
  obtain fee_ok fees raw where c:
    "createFeeTransaction env connFrom ptr (filter (\<lambda>u. \<not> set_count ex u) feeOutputs0)
       = (fee_ok, fees, raw)"
    by (cases "createFeeTransaction env connFrom ptr (filter (\<lambda>u. \<not> set_count ex u) feeOutputs0)")
  show ?thesis
  proof (cases fee_ok)
    case False
    with a Some g1 c k1 show ?thesis
      by (auto simp: accept_select_utxos_def set_order_def Let_def)
  next
    case True
    obtain ex2 s3 where g2: "getAllLockedUtxos (currency connFrom) (lockFeeUtxos fees s1) = (ex2, s3)"
      by (cases "getAllLockedUtxos (currency connFrom) (lockFeeUtxos fees s1)")
    note k2 = getAllLockedUtxos_state[OF g2]
    have k3: "\<forall>t. locked_keys (m_utxosDict s3) t = locked_keys (m_utxosDict s) t"
      using k1 k2 by (simp add: lockFeeUtxos_def)
    have f3: "m_feeUtxos s3 = fees ++ m_feeUtxos s"
      using k1 k2 by (simp add: lockFeeUtxos_def)
    have f4: "m_feeUtxos (unlockFeeUtxos fees (set_order i q s3)) k = None
        \<or> m_feeUtxos (unlockFeeUtxos fees (set_order i q s3)) k = m_feeUtxos s k" for q k
      by (simp add: unlockFeeUtxos_def set_order_def f3 map_add_def split: option.splits)
    have f5: "fees k = None \<longrightarrow> m_feeUtxos s3 k = m_feeUtxos s k" for k
      by (simp add: f3 map_add_def split: option.splits)
    have l4: "m_utxosDict (unlockFeeUtxos fees (set_order i q s3)) = m_utxosDict s3" for q
      by (simp add: unlockFeeUtxos_def set_order_def)
    have t4: "m_transactions (unlockFeeUtxos fees (set_order i q s3)) i = Some q" for q
      by (simp add: unlockFeeUtxos_def set_order_def)
    obtain selected outputsForUse utxoAmount fee1 fee2 where sl:
      "selectUtxos ops std_sort frm (getUnspent connFrom ex2) (minTxFee1 connFrom)
         (minTxFee2 connFrom) (fromAmount ptr) (COIN env) [] 0 0 0
       = (selected, outputsForUse, utxoAmount, fee1, fee2)"
      by (metis prod_cases5)
    show ?thesis
    proof (cases selected)
      case False
      with a Some g1 c True g2 sl
      have "err = INSIFFICIENT_FUNDS" "ptr' = ptr\<lparr>feeUtxos := fees, rawFeeTx := raw, state := priorState\<rparr>"
        "s' = unlockFeeUtxos fees (set_order i ptr' s3)"
        by (auto simp: accept_select_utxos_def Let_def)
      then show ?thesis
        using k3 f4[of ptr'] by (simp add: l4 t4)
    next
      case sel: True
      show ?thesis
      proof (cases "sign_loop env connFrom outputsForUse")
        case (Inl e)
        have "e \<noteq> SUCCESS"
          using Inl by (rule sign_loop_error)
        moreover from a Some g1 c True g2 sl sel Inl
        have "err = e" "ptr' = ptr\<lparr>feeUtxos := fees, rawFeeTx := raw, state := priorState\<rparr>"
          "s' = unlockFeeUtxos fees (set_order i ptr' s3)"
          by (auto simp: accept_select_utxos_def Let_def)
        ultimately show ?thesis
          using k3 f4[of ptr'] by (simp add: l4 t4)
      next
        case (Inr signedOutputs)
        obtain locked dict where lk:
          "lockCoins (currency connFrom) signedOutputs (m_utxosDict s3) = (locked, dict)"
          by (cases "lockCoins (currency connFrom) signedOutputs (m_utxosDict s3)")
        from lockCoins_after_selection[OF conf hon g2 sl Inr] lk have locked: locked
          by simp
        with a Some g1 c \<open>fee_ok\<close> g2 sl sel Inr lk
        have r: "err = SUCCESS"
          "ptr' = ptr\<lparr>feeUtxos := fees, rawFeeTx := raw, usedCoins := signedOutputs\<rparr>"
          "s' = set_order i ptr' (s3\<lparr>m_utxosDict := dict\<rparr>)"
          by (auto simp: accept_select_utxos_def Let_def)
        have "locked_keys (unlockCoins (currency connFrom) signedOutputs dict) t
              = locked_keys (m_utxosDict s) t" for t
          using lock_then_unlock[of "currency connFrom" signedOutputs "m_utxosDict s3" dict t]
            lk locked k3 by simp
        then show ?thesis
          using r f5 by (simp add: set_order_def)
      qed
    qed
  qed
qed

text \<open>
  Claim C1. After \<open>acceptXBridgeTransaction\<close> has advanced a stored order to
  Accepting, every failure leaves the order in the state it had before the call, the
  coins locked for each currency as they were before the call, and no fee lock that was
  not held before the call: the locks on the order's used coins and on its fee outputs
  that the call took are released. This holds for a connector whose \<open>getUnspent\<close>
  leaves out the exclusion set and for every \<open>std::sort\<close> that returns a sorted
  rearrangement. (The branch after a refused \<open>lockCoins\<close> restores the state
  without a call of \<open>unlockFeeUtxos\<close>; with such a connector it is not reached,
  since the selection is made from outputs that are not locked.)
\<close>

theorem acceptXBridgeTransaction_failure_releases:
  assumes conf: "sort_conforms std_sort"
    and hon: "\<forall>conn. connectorByCurrency env (fromCurrency ptr0) = Some conn
                \<longrightarrow> honours_exclusion conn"
    and p: "m_transactions s i = Some ptr0"
    and rank: "stateRank env (state ptr0) < stateRank env trAccepting"
    and a: "acceptXBridgeTransaction ops std_sort env i frm to s = (err, s')"
    and e: "err \<noteq> SUCCESS"
  shows "map_option state (m_transactions s' i) = Some (state ptr0)
       \<and> (\<forall>t. locked_keys (m_utxosDict s') t = locked_keys (m_utxosDict s) t)
       \<and> (\<forall>k. m_feeUtxos s' k = None \<or> m_feeUtxos s' k = m_feeUtxos s k)"
proof -
  let ?ptr = "ptr0\<lparr>state := trAccepting\<rparr>"
  let ?restored = "set_order i (?ptr\<lparr>state := state ptr0\<rparr>) s"
  have restored: "map_option state (m_transactions ?restored i) = Some (state ptr0)
           \<and> (\<forall>t. locked_keys (m_utxosDict ?restored) t = locked_keys (m_utxosDict s) t)
           \<and> (\<forall>k. m_feeUtxos ?restored k = None \<or> m_feeUtxos ?restored k = m_feeUtxos s k)"
    by (simp add: set_order_def)
  from rank have nr: "\<not> stateRank env (state ptr0) \<ge> stateRank env trAccepting"
    by simp
  show ?thesis
  proof (cases "s' = ?restored")
    case True
    then show ?thesis using restored by simp
  next
    case ns: False
    from a p nr ns obtain connFrom connTo where
      cf: "connectorByCurrency env (fromCurrency ptr0) = Some connFrom"
      and ct: "connectorByCurrency env (toCurrency ptr0) = Some connTo"
      by (auto simp: acceptXBridgeTransaction_def Let_def split: option.splits if_splits)
    from hon cf have hc: "honours_exclusion connFrom"
      by blast
    obtain err1 ptr1 s1 where sel:
      "accept_select_utxos ops std_sort env connFrom i frm (state ptr0) ?ptr (set_order i ?ptr s)
       = (err1, ptr1, s1)"
      by (metis prod_cases3)
    note k = accept_select_utxos_cases[OF conf hc sel]
    have base: "\<forall>t. locked_keys (m_utxosDict (set_order i ?ptr s)) t = locked_keys (m_utxosDict s) t"
      "m_feeUtxos (set_order i ?ptr s) = m_feeUtxos s"
      by (simp_all add: set_order_def)
    show ?thesis
    proof (cases "err1 = SUCCESS")
      case False
      with a p nr ns cf ct sel have "err = err1" "s' = s1"
        by (auto simp: acceptXBridgeTransaction_def Let_def
                 split: option.splits if_splits prod.splits)
      then show ?thesis
        using k False base by simp
    next
      case True
      let ?unlocked = "s1\<lparr>m_utxosDict := unlockCoins (currency connFrom) (usedCoins ptr1)
                                              (m_utxosDict s1)\<rparr>"
      let ?released = "set_order i (ptr1\<lparr>state := state ptr0, usedCoins := []\<rparr>)
                         (unlockFeeUtxos (feeUtxos ptr1) ?unlocked)"
      from a p nr ns cf ct sel True e have s': "s' = ?released"
        by (auto simp: acceptXBridgeTransaction_def Let_def
                 split: option.splits if_splits prod.splits)
      from k True have kf: "feeUtxos ptr1 k = None \<longrightarrow> m_feeUtxos s1 k = m_feeUtxos (set_order i ?ptr s) k"
        for k
        by blast
      have fee: "m_feeUtxos ?released k = None \<or> m_feeUtxos ?released k = m_feeUtxos s k" for k
      proof (cases "feeUtxos ptr1 k")
        case None
        with kf[of k] base(2) show ?thesis
          by (simp add: set_order_def unlockFeeUtxos_def)
      next
        case (Some u)
        then show ?thesis
          by (simp add: set_order_def unlockFeeUtxos_def)
      qed
      have coins: "\<forall>t. locked_keys (m_utxosDict ?released) t = locked_keys (m_utxosDict s) t"
        using k True base by (simp add: set_order_def unlockFeeUtxos_def)
      have st: "map_option state (m_transactions ?released i) = Some (state ptr0)"
        by (simp add: set_order_def)
      from st coins fee show ?thesis
        unfolding s' by blast
    qed
  qed
qed

text \<open>The fixture, step by step.\<close>

lemma utxo_fixture_fields:
  "txId (utxo_fixture t a) = t" "vout (utxo_fixture t a) = 0" "address (utxo_fixture t a) = ''addr''"
  "utxo_key (utxo_fixture t a) = (t, 0)"
  "utxo_key (u\<lparr>signature := sg, rawAddress := ra\<rparr>) = utxo_key u"
  by (simp_all add: utxo_fixture_def utxo_key_def)

lemma fixture_select:
  "selectUtxos (rounded_ops (\<lambda>x. x)) sort_fixture ''from'' [utxo_fixture ''bb'' 5000]
      fee1_fixture fee2_fixture 2000000 1000000 [] 0 0 0
    = (True, [utxo_fixture ''bb'' 5000], 5000000000, 4000000, 0)"
  by (simp add: selectUtxos_def selUtxos_def Let_def sort_fixture_def amount_greater_def
        amount_less_def utxo_fixture_def rounded_ops_def feeAmount_def fee1_fixture_def
        fee2_fixture_def runningAmount_def trunc_def)

lemma fixture_sign:
  "sign_loop accept_env_fixture (connector_fixture ''BTC'') [utxo_fixture ''bb'' 5000]
    = Inr [(utxo_fixture ''bb'' 5000)\<lparr>signature := replicate 65 1, rawAddress := replicate 20 7\<rparr>]"
  by (simp add: sign_entry_def accept_env_fixture_def connector_fixture_def Let_def
        utxo_fixture_def)

lemma connector_fixture_fields:
  "currency (connector_fixture cur) = cur"
  "minTxFee1 (connector_fixture cur) = fee1_fixture"
  "minTxFee2 (connector_fixture cur) = fee2_fixture"
  "getUnspent (connector_fixture cur)
     = (\<lambda>excluded. filter (\<lambda>u. \<not> set_count excluded u)
                      [utxo_fixture ''cc'' 5000, utxo_fixture ''bb'' 5000])"
  "isDustAmount (connector_fixture cur) = (\<lambda>a. a < 1 / 1000)"
  "serviceNodeFee (connector_fixture cur) = 1"
  "getBlockCount (connector_fixture ''BTC'') = Some 100"
  "getBlockCount (connector_fixture ''LTC'') = None"
  by (simp_all add: connector_fixture_def)

lemma connector_fixture_honours: "honours_exclusion (connector_fixture cur)"
  by (simp add: honours_exclusion_def connector_fixture_def)

lemma accept_env_fixture_fields:
  "connectorByCurrency accept_env_fixture = (\<lambda>cur. Some (connector_fixture cur))"
  "COIN accept_env_fixture = 1000000"
  "availableBalance accept_env_fixture = 10"
  "unspentP2PKH accept_env_fixture = Some [utxo_fixture ''gg'' 10, utxo_fixture ''ff'' 10]"
  "createFeeTransaction accept_env_fixture =
     (\<lambda>conn ptr feeOutputs.
        (feeOutputs \<noteq> [], set_insert_range Map.empty (take 1 feeOutputs), ''rawfee''))"
  "infoTooLarge accept_env_fixture = (\<lambda>ptr. False)"
  "stateRank accept_env_fixture trNew = 0" "stateRank accept_env_fixture trAccepting = 3"
  "lookupSn (nodes accept_env_fixture) key = Some (node_fixture key [''BTC'', ''LTC''])"
  by (simp_all add: accept_env_fixture_def lookupSn_def)

lemma accept_fixture_result:
  "acceptXBridgeTransaction (rounded_ops (\<lambda>x. x)) sort_fixture accept_env_fixture 1
       ''from'' ''to'' accept_state_fixture
     = (NO_SESSION,
        accept_state_fixture
         \<lparr>m_transactions :=
            [1 \<mapsto> order_fixture\<lparr>sPubKey := replicate 33 2, fromAmount := 2000000,
                                 feeUtxos := [(''ff'', 0) \<mapsto> utxo_fixture ''ff'' 10],
                                 rawFeeTx := ''rawfee''\<rparr>]\<rparr>)"
proof -
  let ?o = "(order_fixture :: real TransactionDescr)\<lparr>sPubKey := replicate 33 2, fromAmount := 2000000\<rparr>"
  let ?p = "?o\<lparr>state := trAccepting\<rparr>"
  let ?bb = "(utxo_fixture ''bb'' (5000::real))\<lparr>signature := replicate 65 1,
                                                  rawAddress := replicate 20 7\<rparr>"
  let ?q = "?p\<lparr>feeUtxos := [(''ff'', 0) \<mapsto> utxo_fixture ''ff'' 10], rawFeeTx := ''rawfee'',
           usedCoins := [?bb]\<rparr>"
  have fa: "fromAmount ?p = 2000000" "fromCurrency ?p = ''BTC''" "toCurrency ?p = ''LTC''"
      "toAmount ?p = 2000000" "length (sPubKey ?p) = 33" "state ?o = trNew"
    by (simp_all add: order_fixture_def)
  have sel: "accept_select_utxos (rounded_ops (\<lambda>x. x)) sort_fixture accept_env_fixture
      (connector_fixture ''BTC'') 1 ''from'' trNew ?p (set_order 1 ?p accept_state_fixture)
    = (SUCCESS, ?q,
       accept_state_fixture
         \<lparr>m_transactions := [1 \<mapsto> ?q],
          m_utxosDict := [''BTC'' \<mapsto> [(''cc'', 0) \<mapsto> utxo_fixture ''cc'' 5000, (''bb'', 0) \<mapsto> ?bb]],
          m_feeUtxos := [(''ff'', 0) \<mapsto> utxo_fixture ''ff'' 10] ++ [(''gg'', 0) \<mapsto> utxo_fixture ''gg'' 10]\<rparr>)"
    by (simp add: accept_select_utxos_def connector_fixture_fields accept_env_fixture_fields
        getAllLockedUtxos_def getLockedUtxos_def accept_state_fixture_def init_state_def
        set_order_def Let_def set_count_def set_insert_def lockFeeUtxos_def fa
        utxo_fixture_fields fixture_select fixture_sign lockCoins_def
        del: sign_loop.simps)
  have ops: "d_div (rounded_ops (\<lambda>x. x)) = (/)" "d_of_int (rounded_ops (\<lambda>x. x)) = of_int"
    by (simp_all add: rounded_ops_def)
  have st: "m_transactions accept_state_fixture 1 = Some ?o"
    by (simp add: accept_state_fixture_def)
  have q: "usedCoins ?q = [?bb]" "feeUtxos ?q = [(''ff'', 0) \<mapsto> utxo_fixture ''ff'' 10]"
    by simp_all
  show ?thesis
    unfolding acceptXBridgeTransaction_def st
    apply (simp add: Let_def fa connector_fixture_fields accept_env_fixture_fields sel ops)
    apply (simp add: set_order_def unlockFeeUtxos_def unlockCoins_def set_count_def set_erase_def
        utxo_fixture_fields accept_state_fixture_def init_state_def order_fixture_def)
    apply (rule ext)
    apply (auto simp: map_add_def)
    done
qed

theorem acceptXBridgeTransaction_failure_releases_witness:
  "sort_conforms (sort_fixture :: (real UtxoEntry \<Rightarrow> real UtxoEntry \<Rightarrow> bool) \<Rightarrow> _)
   \<and> honours_exclusion (connector_fixture ''BTC'')
   \<and> map_option state (m_transactions accept_state_fixture 1) = Some trNew
   \<and> stateRank accept_env_fixture trNew < stateRank accept_env_fixture trAccepting
   \<and> fst (acceptXBridgeTransaction (rounded_ops (\<lambda>x. x)) sort_fixture accept_env_fixture 1
            ''from'' ''to'' accept_state_fixture) = NO_SESSION
   \<and> map_option state
        (m_transactions
          (snd (acceptXBridgeTransaction (rounded_ops (\<lambda>x. x)) sort_fixture accept_env_fixture 1
                  ''from'' ''to'' accept_state_fixture)) 1) = Some trNew
   \<and> locked_keys
        (m_utxosDict
          (snd (acceptXBridgeTransaction (rounded_ops (\<lambda>x. x)) sort_fixture accept_env_fixture 1
                  ''from'' ''to'' accept_state_fixture))) ''BTC'' = {(''cc'', 0)}
   \<and> m_feeUtxos
        (snd (acceptXBridgeTransaction (rounded_ops (\<lambda>x. x)) sort_fixture accept_env_fixture 1
                ''from'' ''to'' accept_state_fixture)) (''ff'', 0) = None"
proof -
  let ?o = "(order_fixture :: real TransactionDescr)\<lparr>sPubKey := replicate 33 2, fromAmount := 2000000\<rparr>"
  let ?r = "acceptXBridgeTransaction (rounded_ops (\<lambda>x. x)) sort_fixture accept_env_fixture 1
              ''from'' ''to'' accept_state_fixture"
  have p: "m_transactions accept_state_fixture 1 = Some ?o"
    by (simp add: accept_state_fixture_def)
  have o: "state ?o = trNew" "fromCurrency ?o = ''BTC''"
    by (simp_all add: order_fixture_def)
  have hon: "\<forall>conn. connectorByCurrency accept_env_fixture (fromCurrency ?o) = Some conn
                \<longrightarrow> honours_exclusion conn"
    by (auto simp: accept_env_fixture_fields connector_fixture_honours)
  have rank: "stateRank accept_env_fixture (state ?o) < stateRank accept_env_fixture trAccepting"
    by (simp add: o accept_env_fixture_fields)
  have err: "fst ?r = NO_SESSION"
    by (simp add: accept_fixture_result)
  have a: "?r = (NO_SESSION, snd ?r)"
    using err by (cases ?r) simp
  have before: "locked_keys (m_utxosDict accept_state_fixture) ''BTC'' = {(''cc'', 0)}"
    and fee_before: "m_feeUtxos accept_state_fixture (''ff'', 0) = None"
    by (simp_all add: accept_state_fixture_def locked_keys_def init_state_def)
  have th: "map_option state (m_transactions (snd ?r) 1) = Some (state ?o)
       \<and> (\<forall>t. locked_keys (m_utxosDict (snd ?r)) t = locked_keys (m_utxosDict accept_state_fixture) t)
       \<and> (\<forall>k. m_feeUtxos (snd ?r) k = None
                \<or> m_feeUtxos (snd ?r) k = m_feeUtxos accept_state_fixture k)"
    by (rule acceptXBridgeTransaction_failure_releases[OF sort_fixture_conforms hon p rank a]) simp
  from th have "map_option state (m_transactions (snd ?r) 1) = Some trNew"
    by (simp only: o)
  moreover from th have "locked_keys (m_utxosDict (snd ?r)) ''BTC'' = {(''cc'', 0)}"
    by (simp only: before)
  moreover from th have "m_feeUtxos (snd ?r) (''ff'', 0) = None
      \<or> m_feeUtxos (snd ?r) (''ff'', 0) = m_feeUtxos accept_state_fixture (''ff'', 0)"
    by blast
  then have "m_feeUtxos (snd ?r) (''ff'', 0) = None"
    by (simp only: fee_before) simp
  ultimately have "map_option state (m_transactions (snd ?r) 1) = Some trNew"
    and "locked_keys (m_utxosDict (snd ?r)) ''BTC'' = {(''cc'', 0)}"
    and "m_feeUtxos (snd ?r) (''ff'', 0) = None"
    by blast+
  with sort_fixture_conforms connector_fixture_honours[of "''BTC''"] p o rank err show ?thesis
    by simp
qed

end
